theory Spec2Isabelle
  imports Complex_Main "HOL-Library.Word"
begin

unbundle bit_operations_syntax

section \<open>Wire decoder: definitions\<close>

text \<open>
  An \<^verbatim>\<open>ArrayBuffer\<close> is a list of bytes. A JavaScript string produced by
  \<^verbatim>\<open>String.fromCharCode.apply(null, bytes)\<close> has one code unit per byte, so the strings
  the decoder returns are kept as the list of their code units. \<^verbatim>\<open>apply\<close> passes every
  byte as an argument of its own, and an engine throws \<^verbatim>\<open>RangeError\<close> when a call gets
  more arguments than it accepts. The language does not fix that number: it is the
  parameter \<open>maxArguments\<close> of the decoder. A thrown exception is the \<open>Inl\<close> branch of a sum.
\<close>

type_synonym byte = "8 word"
type_synonym jsstring = "byte list"

datatype js_error = RangeError | TypeError

datatype payload = Text jsstring | Binary "byte list"

definition ascii :: "string \<Rightarrow> jsstring" where
  "ascii s = map (\<lambda>c. of_nat (of_char c)) s"

subsection \<open>DataView reads\<close>

text \<open>
  \<^verbatim>\<open>new DataView(buffer, idx).getUintN()\<close> reads N/8 bytes at \<open>idx\<close>, big-endian (the
  calls pass no \<^verbatim>\<open>littleEndian\<close> argument). The constructor throws \<^verbatim>\<open>RangeError\<close> when
  \<open>idx\<close> is past the end of the buffer and the getter throws it when the bytes read do
  not fit the view, so the read succeeds exactly when \<open>idx + w \<le> length buffer\<close>.
  \<^verbatim>\<open>Number(getBigUint64())\<close>, and the polyfill that combines two 32-bit halves, are exact
  below \<open>2^53\<close>, which bounds the length of every \<^verbatim>\<open>ArrayBuffer\<close>; the model returns the
  exact value.
\<close>

definition be_nat :: "byte list \<Rightarrow> nat" where
  "be_nat bs = foldl (\<lambda>a b. 256 * a + unat b) 0 bs"

definition getUint :: "nat \<Rightarrow> byte list \<Rightarrow> nat \<Rightarrow> js_error + nat" where
  "getUint w buffer idx =
     (if idx + w \<le> length buffer then Inr (be_nat (take w (drop idx buffer)))
      else Inl RangeError)"

definition getUint8 :: "byte list \<Rightarrow> nat \<Rightarrow> js_error + nat" where
  "getUint8 = getUint 1"

definition getUint16 :: "byte list \<Rightarrow> nat \<Rightarrow> js_error + nat" where
  "getUint16 = getUint 2"

definition getUint32 :: "byte list \<Rightarrow> nat \<Rightarrow> js_error + nat" where
  "getUint32 = getUint 4"

definition getBigUint64 :: "byte list \<Rightarrow> nat \<Rightarrow> js_error + nat" where
  "getBigUint64 = getUint 8"

subsection \<open>parsePayload\<close>

text \<open>
  The result is \<open>Inr None\<close> where the source falls off the end of the function and
  returns \<^verbatim>\<open>undefined\<close> (a type tag other than 1 and 2). For tag 1,
  \<^verbatim>\<open>new Uint8Array(buffer, idx, lenPayload)\<close> throws \<^verbatim>\<open>RangeError\<close> when the payload does
  not fit, and \<^verbatim>\<open>String.fromCharCode.apply\<close> throws it when the payload has more than
  \<open>maxArguments\<close> bytes; for tag 2, \<^verbatim>\<open>buffer.slice(idx, idx + lenPayload)\<close> clamps both
  ends to the buffer and never throws.
\<close>

definition parseLength :: "byte list \<Rightarrow> nat \<Rightarrow> js_error + (nat \<times> nat)" where
  "parseLength buffer idx =
     (case getUint8 buffer idx of
        Inl e \<Rightarrow> Inl e
      | Inr lenPayload \<Rightarrow>
          if lenPayload = 126 then
            (case getUint16 buffer (idx + 1) of
               Inl e \<Rightarrow> Inl e
             | Inr l \<Rightarrow> Inr (l, idx + 1 + 2))
          else if lenPayload = 127 then
            (case getBigUint64 buffer (idx + 1) of
               Inl e \<Rightarrow> Inl e
             | Inr l \<Rightarrow> Inr (l, idx + 1 + 8))
          else Inr (lenPayload, idx + 1))"

definition parsePayload ::
  "nat \<Rightarrow> byte list \<Rightarrow> nat \<Rightarrow> js_error + (nat \<times> payload) option" where
  "parsePayload maxArguments buffer idx =
     (case getUint8 buffer idx of
        Inl e \<Rightarrow> Inl e
      | Inr t \<Rightarrow>
          let type = t AND 127 in
          (case parseLength buffer (idx + 1) of
             Inl e \<Rightarrow> Inl e
           | Inr (lenPayload, idx') \<Rightarrow>
               if type = 1 then
                 (if idx' + lenPayload \<le> length buffer
                  then (if lenPayload \<le> maxArguments
                        then Inr (Some (idx' + lenPayload,
                                        Text (take lenPayload (drop idx' buffer))))
                        else Inl RangeError)
                  else Inl RangeError)
               else if type = 2 then
                 Inr (Some (idx' + lenPayload, Binary (take lenPayload (drop idx' buffer))))
               else Inr None))"

subsection \<open>The object that collects the updates\<close>

text \<open>
  \<^verbatim>\<open>updateKeyVals\<close> is a plain object used as a dictionary. It is modelled as the list of
  its own enumerable properties in the order \<^verbatim>\<open>for (const key in ...)\<close> visits them:
  property names that are array indices (canonical decimal numerals below \<open>2^32 - 1\<close>)
  come first, in ascending numeric order, then every other name in the order of its
  first assignment. Assigning to an existing name keeps its place. A property name is a
  string: a \<^verbatim>\<open>Binary\<close> key (an \<^verbatim>\<open>ArrayBuffer\<close>) is converted to \<^verbatim>\<open>"[object ArrayBuffer]"\<close>.
  Assigning to \<^verbatim>\<open>__proto__\<close> goes to the inherited setter and creates no own property;
  given an \<^verbatim>\<open>ArrayBuffer\<close>, the setter makes it the prototype of the object, which changes
  neither the own properties nor what \<^verbatim>\<open>for (... in ...)\<close> visits, but can make a later
  assignment to a name of \<^verbatim>\<open>ArrayBuffer.prototype\<close> throw. The general properties of the
  decoder are stated for messages with no update key of this name.
\<close>

type_synonym 'a js_object = "(jsstring \<times> 'a) list"

definition isDigit :: "byte \<Rightarrow> bool" where
  "isDigit b = (48 \<le> unat b \<and> unat b \<le> 57)"

definition digitsValue :: "jsstring \<Rightarrow> nat" where
  "digitsValue s = foldl (\<lambda>a b. 10 * a + (unat b - 48)) 0 s"

definition isArrayIndex :: "jsstring \<Rightarrow> bool" where
  "isArrayIndex s =
     (s \<noteq> [] \<and> list_all isDigit s \<and> (hd s \<noteq> 48 \<or> length s = 1) \<and>
      digitsValue s < 2 ^ 32 - 1)"

definition toPropertyKey :: "payload \<Rightarrow> jsstring" where
  "toPropertyKey p = (case p of Text s \<Rightarrow> s | Binary _ \<Rightarrow> ascii ''[object ArrayBuffer]'')"

fun insertArrayIndex :: "jsstring \<Rightarrow> 'a \<Rightarrow> 'a js_object \<Rightarrow> 'a js_object" where
  "insertArrayIndex k v [] = [(k, v)]"
| "insertArrayIndex k v ((k', v') # rest) =
     (if isArrayIndex k' \<and> digitsValue k' < digitsValue k
      then (k', v') # insertArrayIndex k v rest
      else (k, v) # (k', v') # rest)"

fun assignExisting :: "jsstring \<Rightarrow> 'a \<Rightarrow> 'a js_object \<Rightarrow> 'a js_object" where
  "assignExisting k v [] = []"
| "assignExisting k v ((k', v') # rest) =
     (if k' = k then (k, v) # rest else (k', v') # assignExisting k v rest)"

definition js_set :: "'a js_object \<Rightarrow> jsstring \<Rightarrow> 'a \<Rightarrow> 'a js_object" where
  "js_set obj k v =
     (if k = ascii ''__proto__'' then obj
      else if k \<in> set (map fst obj) then assignExisting k v obj
      else if isArrayIndex k then insertArrayIndex k v obj
      else obj @ [(k, v)])"

text \<open>
  Reading a property, the \<^verbatim>\<open>in\<close> test and \<^verbatim>\<open>delete\<close>. A dictionary of the program is a
  plain object: besides its own properties it has the ones it inherits from
  \<^verbatim>\<open>Object.prototype\<close>, none of them enumerable. \<^verbatim>\<open>in\<close> finds them, \<^verbatim>\<open>for (... in ...)\<close>
  does not visit them and \<^verbatim>\<open>delete\<close> does not remove them. Reading an inherited name
  gives a function of \<^verbatim>\<open>Object.prototype\<close> (the prototype itself for \<^verbatim>\<open>__proto__\<close>), which
  is none of the values the program stores in a dictionary: \<open>js_get\<close> is \<open>None\<close> for it
  as for a name that is absent.
\<close>

definition objectPrototypeNames :: "jsstring list" where
  "objectPrototypeNames =
     map ascii
       [''constructor'', ''__defineGetter__'', ''__defineSetter__'', ''hasOwnProperty'',
        ''__lookupGetter__'', ''__lookupSetter__'', ''isPrototypeOf'',
        ''propertyIsEnumerable'', ''toString'', ''valueOf'', ''__proto__'',
        ''toLocaleString'']"

definition js_in :: "jsstring \<Rightarrow> 'a js_object \<Rightarrow> bool" where
  "js_in k obj = (k \<in> set (map fst obj) \<or> k \<in> set objectPrototypeNames)"

definition js_get :: "'a js_object \<Rightarrow> jsstring \<Rightarrow> 'a option" where
  "js_get obj k = map_of obj k"

definition js_delete :: "'a js_object \<Rightarrow> jsstring \<Rightarrow> 'a js_object" where
  "js_delete obj k = filter (\<lambda>kv. fst kv \<noteq> k) obj"

subsection \<open>parseMessage\<close>

text \<open>
  Each \<^verbatim>\<open>for\<close> loop runs a number of times fixed before it starts, so it is a recursion
  on the iterations left. Reading \<^verbatim>\<open>idxKey[0]\<close> of an \<^verbatim>\<open>undefined\<close> result throws
  \<^verbatim>\<open>TypeError\<close>.
\<close>

record message =
  toUpdate :: "payload js_object"
  toDelete :: "payload list"

fun parseUpdates ::
  "nat \<Rightarrow> byte list \<Rightarrow> nat \<Rightarrow> nat \<Rightarrow> payload js_object
   \<Rightarrow> js_error + (nat \<times> payload js_object)" where
  "parseUpdates maxArguments buffer 0 idx updateKeyVals = Inr (idx, updateKeyVals)"
| "parseUpdates maxArguments buffer (Suc n) idx updateKeyVals =
     (case parsePayload maxArguments buffer idx of
        Inl e \<Rightarrow> Inl e
      | Inr None \<Rightarrow> Inl TypeError
      | Inr (Some (idx1, key)) \<Rightarrow>
          (case parsePayload maxArguments buffer idx1 of
             Inl e \<Rightarrow> Inl e
           | Inr None \<Rightarrow> Inl TypeError
           | Inr (Some (idx2, val)) \<Rightarrow>
               parseUpdates maxArguments buffer n idx2
                 (js_set updateKeyVals (toPropertyKey key) val)))"

fun parseDeletes ::
  "nat \<Rightarrow> byte list \<Rightarrow> nat \<Rightarrow> nat \<Rightarrow> payload list \<Rightarrow> js_error + (nat \<times> payload list)" where
  "parseDeletes maxArguments buffer 0 idx deleteKeys = Inr (idx, deleteKeys)"
| "parseDeletes maxArguments buffer (Suc n) idx deleteKeys =
     (case parsePayload maxArguments buffer idx of
        Inl e \<Rightarrow> Inl e
      | Inr None \<Rightarrow> Inl TypeError
      | Inr (Some (idx1, key)) \<Rightarrow>
          parseDeletes maxArguments buffer n idx1 (deleteKeys @ [key]))"

text \<open>
  \<open>parseMessageIdx\<close> is the body of \<^verbatim>\<open>parseMessage\<close> with the final value of its local
  \<^verbatim>\<open>idx\<close> returned beside the result, so that one can say that a message fills its buffer.
\<close>

definition parseMessageIdx :: "nat \<Rightarrow> byte list \<Rightarrow> js_error + (nat \<times> message)" where
  "parseMessageIdx maxArguments buffer =
     (case getUint32 buffer 0 of
        Inl e \<Rightarrow> Inl e
      | Inr numUpdates \<Rightarrow>
          (case parseUpdates maxArguments buffer numUpdates 4 [] of
             Inl e \<Rightarrow> Inl e
           | Inr (idx, updateKeyVals) \<Rightarrow>
               (case getUint32 buffer idx of
                  Inl e \<Rightarrow> Inl e
                | Inr numDeletes \<Rightarrow>
                    (case parseDeletes maxArguments buffer numDeletes (idx + 4) [] of
                       Inl e \<Rightarrow> Inl e
                     | Inr (idx', deleteKeys) \<Rightarrow>
                         Inr (idx', \<lparr>toUpdate = updateKeyVals, toDelete = deleteKeys\<rparr>)))))"

definition parseMessage :: "nat \<Rightarrow> byte list \<Rightarrow> js_error + message" where
  "parseMessage maxArguments buffer =
     (case parseMessageIdx maxArguments buffer of Inl e \<Rightarrow> Inl e | Inr (idx, m) \<Rightarrow> Inr m)"
subsection \<open>The encoder\<close>

text \<open>
  Modelled from the spec: the encoder. The repository holds only the browser side; the
  messages are written by the server, whose code is not among the sources. The layout
  follows the specification: a 4-byte big-endian count of updates, the (key, value)
  pairs, a 4-byte big-endian count of deletes, the keys. A payload is a type tag (1 for
  text, 2 for binary, the high bit reserved), a length (one byte below 126; 126 and two
  bytes; 127 and eight bytes) and the raw bytes. A payload to encode is paired with the
  value of its reserved bit.
\<close>

fun be_bytes :: "nat \<Rightarrow> nat \<Rightarrow> byte list" where
  "be_bytes 0 n = []"
| "be_bytes (Suc w) n = be_bytes w (n div 256) @ [of_nat n]"

definition encodeLength :: "nat \<Rightarrow> byte list" where
  "encodeLength n =
     (if n < 126 then [of_nat n]
      else if n < 2 ^ 16 then 126 # be_bytes 2 n
      else 127 # be_bytes 8 n)"

definition payloadBytes :: "payload \<Rightarrow> byte list" where
  "payloadBytes p = (case p of Text s \<Rightarrow> s | Binary b \<Rightarrow> b)"

definition typeTag :: "payload \<Rightarrow> byte" where
  "typeTag p = (case p of Text _ \<Rightarrow> 1 | Binary _ \<Rightarrow> 2)"

definition encodePayload :: "bool \<times> payload \<Rightarrow> byte list" where
  "encodePayload rp =
     (case rp of (reserved, p) \<Rightarrow>
        ((if reserved then 128 else 0) + typeTag p)
          # encodeLength (length (payloadBytes p)) @ payloadBytes p)"

definition encodeUpdates :: "((bool \<times> payload) \<times> (bool \<times> payload)) list \<Rightarrow> byte list" where
  "encodeUpdates ups = concat (map (\<lambda>(k, v). encodePayload k @ encodePayload v) ups)"

definition encodeDeletes :: "(bool \<times> payload) list \<Rightarrow> byte list" where
  "encodeDeletes dels = concat (map encodePayload dels)"

definition encodeMessage ::
  "((bool \<times> payload) \<times> (bool \<times> payload)) list \<Rightarrow> (bool \<times> payload) list \<Rightarrow> byte list" where
  "encodeMessage ups dels =
     be_bytes 4 (length ups) @ encodeUpdates ups @ be_bytes 4 (length dels) @ encodeDeletes dels"

subsection \<open>Vocabulary for the decoder's properties\<close>

text \<open>
  \<open>updateStep\<close> is the assignment \<^verbatim>\<open>updateKeyVals[key] = val\<close> for one encoded pair;
  \<open>decodedUpdate\<close> is the pair as the claim expects it back. A key is plain when the
  object keeps it in assignment order: it is neither \<^verbatim>\<open>__proto__\<close> nor an array index.
\<close>

definition updateStep ::
  "payload js_object \<Rightarrow> (bool \<times> payload) \<times> (bool \<times> payload) \<Rightarrow> payload js_object" where
  "updateStep obj kv = js_set obj (toPropertyKey (snd (fst kv))) (snd (snd kv))"

definition isText :: "payload \<Rightarrow> bool" where
  "isText p = (case p of Text _ \<Rightarrow> True | Binary _ \<Rightarrow> False)"

definition plainKey :: "jsstring \<Rightarrow> bool" where
  "plainKey k = (k \<noteq> ascii ''__proto__'' \<and> \<not> isArrayIndex k)"

definition decodedUpdate :: "(bool \<times> payload) \<times> (bool \<times> payload) \<Rightarrow> jsstring \<times> payload" where
  "decodedUpdate kv = (payloadBytes (snd (fst kv)), snd (snd kv))"

text \<open>
  A payload fits a call when it is binary, or text of at most \<open>maxArguments\<close> bytes.
\<close>

definition fitsCall :: "nat \<Rightarrow> payload \<Rightarrow> bool" where
  "fitsCall maxArguments p =
     (case p of Text s \<Rightarrow> length s \<le> maxArguments | Binary _ \<Rightarrow> True)"

definition isBinary :: "payload \<Rightarrow> bool" where
  "isBinary p = (case p of Text _ \<Rightarrow> False | Binary _ \<Rightarrow> True)"

section \<open>Trajectory ring buffer: definitions\<close>

text \<open>
  A trajectory owns one position attribute of \<open>LEN_TRAJECTORY_TRAIL + 1\<close> items of three
  floats, shared by its two line geometries, and the two draw ranges
  \<^verbatim>\<open>(start, count)\<close>. An item of the attribute is a value of the type \<open>'p\<close>: a position as
  the attribute stores it. \<^verbatim>\<open>attribute.set(pos, 3 * i)\<close> overwrites item \<open>i\<close> and throws
  \<^verbatim>\<open>RangeError\<close> when the item lies outside the array. \<^verbatim>\<open>appendPosition\<close> has no
  \<^verbatim>\<open>return\<close> statement: its callers see \<^verbatim>\<open>undefined\<close>.
\<close>

definition LEN_TRAJECTORY_TRAIL :: nat where
  "LEN_TRAJECTORY_TRAIL = 500"

record 'p trajectory =
  traj_idx :: nat
  traj_len :: nat
  traj_positions :: "'p list"
  drawRange1 :: "nat \<times> nat"
  drawRange2 :: "nat \<times> nat"

definition Trajectory_create :: "'p \<Rightarrow> 'p trajectory" where
  "Trajectory_create zero =
     \<lparr>traj_idx = 0, traj_len = 0,
      traj_positions = replicate (LEN_TRAJECTORY_TRAIL + 1) zero,
      drawRange1 = (0, 0), drawRange2 = (0, 0)\<rparr>"

definition attribute_set :: "'p list \<Rightarrow> 'p \<Rightarrow> nat \<Rightarrow> js_error + 'p list" where
  "attribute_set array pos i =
     (if i < length array then Inr (array[i := pos]) else Inl RangeError)"

definition appendPosition :: "'p trajectory \<Rightarrow> 'p \<Rightarrow> js_error + 'p trajectory" where
  "appendPosition traj pos =
     (case attribute_set (traj_positions traj) pos (traj_idx traj) of
        Inl e \<Rightarrow> Inl e
      | Inr written \<Rightarrow>
          (case (if traj_idx traj + 1 > LEN_TRAJECTORY_TRAIL
                 then (case attribute_set written pos 0 of
                         Inl e \<Rightarrow> Inl e
                       | Inr wrapped \<Rightarrow> Inr (wrapped, 1))
                 else Inr (written, traj_idx traj + 1)) of
             Inl e \<Rightarrow> Inl e
           | Inr (array, i) \<Rightarrow>
               if traj_len traj < LEN_TRAJECTORY_TRAIL then
                 Inr (traj\<lparr>traj_idx := i, traj_len := traj_len traj + 1,
                           traj_positions := array,
                           drawRange1 := (0, traj_len traj + 1)\<rparr>)
               else
                 Inr (traj\<lparr>traj_idx := i, traj_positions := array,
                           drawRange1 := (0, i),
                           drawRange2 := (i, LEN_TRAJECTORY_TRAIL - i + 1)\<rparr>)))"

definition Trajectory_reset :: "'p trajectory \<Rightarrow> 'p trajectory" where
  "Trajectory_reset traj =
     traj\<lparr>traj_idx := 0, traj_len := 0, drawRange1 := (0, 0), drawRange2 := (0, 0)\<rparr>"

text \<open>
  A sequence of appends stops at the first exception. The points a line geometry draws
  are the \<^verbatim>\<open>count\<close> items from \<^verbatim>\<open>start\<close> on.
\<close>

fun appendAll :: "'p trajectory \<Rightarrow> 'p list \<Rightarrow> js_error + 'p trajectory" where
  "appendAll traj [] = Inr traj"
| "appendAll traj (pos # rest) =
     (case appendPosition traj pos of Inl e \<Rightarrow> Inl e | Inr traj' \<Rightarrow> appendAll traj' rest)"

definition segment :: "'p list \<Rightarrow> nat \<times> nat \<Rightarrow> 'p list" where
  "segment array r = take (snd r) (drop (fst r) array)"

section \<open>Kinematic updater: definitions\<close>

text \<open>
  The quaternion and vector classes belong to the three.js library, which is not part of
  the repository. Their values are the types \<open>'q\<close> and \<open>'v\<close>, numbers are \<open>'n\<close>, and the
  library operations that \<^verbatim>\<open>updateQ\<close> calls are the fields of a record passed to the
  model. \<open>premultiply three quat p\<close> is \<^verbatim>\<open>quat.premultiply(p)\<close>, the product \<open>p * quat\<close>;
  \<open>vec_add three pos v\<close> is \<^verbatim>\<open>pos.add(v)\<close>. A number read from the configuration vector
  may be \<^verbatim>\<open>undefined\<close> (an index past its end), hence \<open>'n option\<close>.
\<close>

record ('n, 'q, 'v) three =
  quat_identity :: 'q
  setFromAxisAngle :: "'v \<Rightarrow> 'n option \<Rightarrow> 'q"
  premultiply :: "'q \<Rightarrow> 'q \<Rightarrow> 'q"
  vec_zero :: 'v
  multiplyScalar :: "'v \<Rightarrow> 'n option \<Rightarrow> 'v"
  vec_add :: "'v \<Rightarrow> 'v \<Rightarrow> 'v"

text \<open>
  A body keeps its current local pose and, in its \<^verbatim>\<open>redisgl\<close> field, the rest pose, the
  joint type (the first character of the model's type string) and the joint axis.
  \<^verbatim>\<open>Robot.create\<close> leaves the axis \<^verbatim>\<open>undefined\<close> when the second character of the type
  string is none of x, y, z; using such an axis throws \<^verbatim>\<open>TypeError\<close> inside the library.
\<close>

record ('q, 'v) body =
  body_quaternion :: 'q
  body_position :: 'v
  rest_quaternion :: 'q
  rest_position :: 'v
  jointType :: char
  jointAxis :: "'v option"

record ('n, 'q, 'v) robot =
  robot_bodies :: "('q, 'v) body list"
  robot_q :: "'n list"

text \<open>
  \<^verbatim>\<open>toLowerCase\<close> on a one-character string of the Latin-1 range: the ASCII capitals and
  the accented capitals (all of C0 to DE but the multiplication sign D7) move up by 32.
\<close>

definition toLowerCase :: "char \<Rightarrow> char" where
  "toLowerCase c =
     (let n = (of_char c :: nat) in
      if (65 \<le> n \<and> n \<le> 90) \<or> (192 \<le> n \<and> n \<le> 222 \<and> n \<noteq> 215)
      then char_of (n + 32) else c)"

definition q_at :: "'n list \<Rightarrow> nat \<Rightarrow> 'n option" where
  "q_at q i = (if i < length q then Some (q ! i) else None)"

definition updateBody ::
  "('n, 'q, 'v) three \<Rightarrow> 'n option \<Rightarrow> ('q, 'v) body \<Rightarrow> js_error + ('q, 'v) body" where
  "updateBody three qi body =
     (case (if toLowerCase (jointType body) = CHR ''r''
            then (case jointAxis body of
                    None \<Rightarrow> Inl TypeError
                  | Some axis \<Rightarrow> Inr (setFromAxisAngle three axis qi))
            else Inr (quat_identity three)) of
        Inl e \<Rightarrow> Inl e
      | Inr quat0 \<Rightarrow>
          let quat = premultiply three quat0 (rest_quaternion body) in
          (case (if toLowerCase (jointType body) = CHR ''p''
                 then (case jointAxis body of
                         None \<Rightarrow> Inl TypeError
                       | Some axis \<Rightarrow> Inr (multiplyScalar three axis qi))
                 else Inr (vec_zero three)) of
             Inl e \<Rightarrow> Inl e
           | Inr pos0 \<Rightarrow>
               let pos = vec_add three pos0 (rest_position body) in
               Inr (body\<lparr>body_quaternion := quat, body_position := pos\<rparr>)))"

fun updateBodies ::
  "('n, 'q, 'v) three \<Rightarrow> 'n list \<Rightarrow> nat \<Rightarrow> ('q, 'v) body list
   \<Rightarrow> js_error + ('q, 'v) body list" where
  "updateBodies three q i [] = Inr []"
| "updateBodies three q i (body # rest) =
     (case updateBody three (q_at q i) body of
        Inl e \<Rightarrow> Inl e
      | Inr body' \<Rightarrow>
          (case updateBodies three q (i + 1) rest of
             Inl e \<Rightarrow> Inl e
           | Inr rest' \<Rightarrow> Inr (body' # rest')))"

definition updateQ ::
  "('n, 'q, 'v) three \<Rightarrow> ('n, 'q, 'v) robot \<Rightarrow> 'n list
   \<Rightarrow> js_error + (('n, 'q, 'v) robot \<times> bool)" where
  "updateQ three robot q =
     (case updateBodies three q 0 (robot_bodies robot) of
        Inl e \<Rightarrow> Inl e
      | Inr bodies' \<Rightarrow> Inr (robot\<lparr>robot_bodies := bodies', robot_q := q\<rparr>, True))"

definition isRevolute :: "('q, 'v) body \<Rightarrow> bool" where
  "isRevolute b = (toLowerCase (jointType b) = CHR ''r'')"

definition isPrismatic :: "('q, 'v) body \<Rightarrow> bool" where
  "isPrismatic b = (toLowerCase (jointType b) = CHR ''p'')"

text \<open>
  An arithmetic to try the updater on: integer quaternions \<open>(x, y, z, w)\<close> with the
  Hamilton product the library computes, integer vectors, and a stand-in for the
  axis-angle constructor (the true one needs sine and cosine).
\<close>

definition int_three :: "(int, int \<times> int \<times> int \<times> int, int \<times> int \<times> int) three" where
  "int_three =
     \<lparr>quat_identity = (0, 0, 0, 1),
      setFromAxisAngle = (\<lambda>(x, y, z) a. case a of None \<Rightarrow> (0, 0, 0, 0)
                                              | Some s \<Rightarrow> (x * s, y * s, z * s, 1)),
      premultiply = (\<lambda>(bx, by, bz, bw) (ax, ay, az, aw).
         (ax * bw + aw * bx + ay * bz - az * by,
          ay * bw + aw * by + az * bx - ax * bz,
          az * bw + aw * bz + ax * by - ay * bx,
          aw * bw - ax * bx - ay * by - az * bz)),
      vec_zero = (0, 0, 0),
      multiplyScalar = (\<lambda>(x, y, z) a. case a of None \<Rightarrow> (0, 0, 0)
                                            | Some s \<Rightarrow> (x * s, y * s, z * s)),
      vec_add = (\<lambda>(x, y, z) (x', y', z'). (x + x', y + y', z + z'))\<rparr>"

definition demo_robot :: "(int, int \<times> int \<times> int \<times> int, int \<times> int \<times> int) robot" where
  "demo_robot =
     \<lparr>robot_bodies =
        [\<lparr>body_quaternion = (0, 0, 0, 1), body_position = (0, 0, 0),
          rest_quaternion = (0, 0, 0, 1), rest_position = (0, 0, 0),
          jointType = CHR ''R'', jointAxis = Some (0, 0, 1)\<rparr>,
         \<lparr>body_quaternion = (0, 0, 0, 1), body_position = (1, 2, 3),
          rest_quaternion = (0, 0, 0, 1), rest_position = (1, 2, 3),
          jointType = CHR ''p'', jointAxis = Some (1, 0, 0)\<rparr>,
         \<lparr>body_quaternion = (0, 0, 0, 1), body_position = (7, 8, 9),
          rest_quaternion = (0, 1, 0, 0), rest_position = (4, 5, 6),
          jointType = CHR ''f'', jointAxis = None\<rparr>],
      robot_q = [0, 0, 0]\<rparr>"

section \<open>Camera: definitions\<close>

subsection \<open>JavaScript numbers\<close>

text \<open>
  The point cloud is computed in IEEE double arithmetic and stored in \<^verbatim>\<open>Float32Array\<close>s.
  The model does not fix this arithmetic: numbers are the type \<open>'n\<close> and the operations the
  code applies to them are the fields of a record, so every statement holds for the
  arithmetic of the engine. \<open>num\<close> turns an integer (a pixel index, a literal) into a
  number, \<open>le_zero d\<close> is \<^verbatim>\<open>d <= 0\<close>, \<open>fround\<close> is the rounding of a store into a
  \<^verbatim>\<open>Float32Array\<close>, \<open>nan\<close> is the value of \<^verbatim>\<open>undefined / 255\<close>.
\<close>

record 'n arith =
  num :: "int \<Rightarrow> 'n"
  fsub :: "'n \<Rightarrow> 'n \<Rightarrow> 'n"
  fmul :: "'n \<Rightarrow> 'n \<Rightarrow> 'n"
  fdiv :: "'n \<Rightarrow> 'n \<Rightarrow> 'n"
  isNaN :: "'n \<Rightarrow> bool"
  le_zero :: "'n \<Rightarrow> bool"
  fround :: "'n \<Rightarrow> 'n"
  nan :: 'n

subsection \<open>Camera state\<close>

text \<open>
  The \<^verbatim>\<open>redisgl\<close> field of a camera (images, dimensions \<^verbatim>\<open>[rows, cols, channels]\<close>,
  intrinsic matrix) and what the module reads and writes of its two children: the
  position and colour arrays of the point cloud, which exist once the first depth image
  has arrived, the draw range \<^verbatim>\<open>(start, count)\<close> of the point cloud, and the eight
  six-float arrays of the view frame. Of the intrinsic matrix \<open>K\<close> the code reads
  \<open>K[0][0]\<close>, \<open>K[0][2]\<close>, \<open>K[1][1]\<close> and \<open>K[1][2]\<close>. The \<^verbatim>\<open>needsUpdate\<close> flags of the
  attributes concern the upload to the graphics card and are left out.
\<close>

record 'n intrinsic =
  k00 :: 'n
  k02 :: 'n
  k11 :: 'n
  k12 :: 'n

record 'n camera =
  colorImage :: "'n list option"
  depthImage :: "'n list option"
  depthDim :: "nat \<times> nat \<times> nat"
  colorDim :: "nat \<times> nat \<times> nat"
  intrinsic :: "'n intrinsic option"
  points_position :: "'n list option"
  points_color :: "'n list option"
  points_drawRange :: "nat \<times> nat"
  frame_lines :: "'n list list"

definition Camera_create :: "'n arith \<Rightarrow> 'n camera" where
  "Camera_create ar =
     \<lparr>colorImage = None, depthImage = None, depthDim = (0, 0, 0), colorDim = (0, 0, 0),
      intrinsic = None, points_position = None, points_color = None,
      points_drawRange = (0, 0),
      frame_lines = replicate 8 (replicate 6 (num ar 0))\<rparr>"

definition DOWNSCALE_FACTOR :: nat where
  "DOWNSCALE_FACTOR = 2"

text \<open>A store into a typed array rounds the value; a store past the end is ignored.\<close>

definition store :: "'n arith \<Rightarrow> 'n list \<Rightarrow> nat \<Rightarrow> 'n \<Rightarrow> 'n list" where
  "store ar array i v = (if i < length array then array[i := fround ar v] else array)"

subsection \<open>renderPointCloud\<close>

text \<open>
  \<open>depthAt\<close> is \<^verbatim>\<open>spec.depthImage[i] / 1000\<close>. Past the end of the image the read gives
  \<^verbatim>\<open>undefined\<close> and the quotient is \<^verbatim>\<open>NaN\<close>, for which \<^verbatim>\<open>isNaN\<close> holds and the pixel is
  skipped: this case is \<open>None\<close>.
\<close>

definition depthAt :: "'n arith \<Rightarrow> 'n list \<Rightarrow> nat \<Rightarrow> 'n option" where
  "depthAt ar img i = (if i < length img then Some (fdiv ar (img ! i) (num ar 1000)) else None)"

definition backProject :: "'n arith \<Rightarrow> 'n intrinsic \<Rightarrow> nat \<Rightarrow> nat \<Rightarrow> nat \<Rightarrow> 'n \<Rightarrow> 'n list" where
  "backProject ar K numRows y x d =
     [fdiv ar (fmul ar d (fsub ar (num ar (int x)) (k02 K))) (k00 K),
      fdiv ar (fmul ar d (fsub ar (num ar (int numRows - int y)) (k12 K))) (k11 K),
      d]"

definition pointsPixel ::
  "'n arith \<Rightarrow> 'n intrinsic \<Rightarrow> nat \<Rightarrow> nat \<Rightarrow> 'n list \<Rightarrow> nat
   \<Rightarrow> 'n list \<times> nat \<Rightarrow> nat \<Rightarrow> 'n list \<times> nat" where
  "pointsPixel ar K numRows numCols img y s x =
     (case s of (buffer, idx) \<Rightarrow>
        if x mod DOWNSCALE_FACTOR \<noteq> 0 then s
        else (case depthAt ar img (numCols * y + x) of
                None \<Rightarrow> s
              | Some d \<Rightarrow>
                  if isNaN ar d \<or> le_zero ar d then s
                  else (case backProject ar K numRows y x d of
                          p \<Rightarrow> (store ar (store ar (store ar buffer (3 * idx + 0) (p ! 0))
                                                 (3 * idx + 1) (p ! 1))
                                       (3 * idx + 2) (p ! 2),
                                idx + 1))))"

definition pointsRow ::
  "'n arith \<Rightarrow> 'n intrinsic \<Rightarrow> nat \<Rightarrow> nat \<Rightarrow> 'n list
   \<Rightarrow> 'n list \<times> nat \<Rightarrow> nat \<Rightarrow> 'n list \<times> nat" where
  "pointsRow ar K numRows numCols img s y =
     (if y mod DOWNSCALE_FACTOR \<noteq> 0 then s
      else foldl (pointsPixel ar K numRows numCols img y) s [0..<numCols])"

definition colorAt :: "'n arith \<Rightarrow> 'n list \<Rightarrow> nat \<Rightarrow> 'n" where
  "colorAt ar img i = (if i < length img then fdiv ar (img ! i) (num ar 255) else nan ar)"

definition colorsPixel ::
  "'n arith \<Rightarrow> nat \<Rightarrow> nat \<Rightarrow> nat \<Rightarrow> 'n list \<Rightarrow> 'n list \<Rightarrow> nat
   \<Rightarrow> 'n list \<times> nat \<Rightarrow> nat \<Rightarrow> 'n list \<times> nat" where
  "colorsPixel ar numRows numCols numChannels img cimg y s x =
     (case s of (colorBuffer, idx) \<Rightarrow>
        if x mod DOWNSCALE_FACTOR \<noteq> 0 then s
        else (case depthAt ar img (numCols * y + x) of
                None \<Rightarrow> s
              | Some d \<Rightarrow>
                  if isNaN ar d \<or> le_zero ar d then s
                  else
                    (let idxRow = (numRows - y) * numCols * numChannels;
                         idxCol = x * numChannels
                     in (foldl (\<lambda>cb c. store ar cb (3 * idx + c)
                                          (colorAt ar cimg (idxRow + idxCol + c)))
                           colorBuffer [0..<3],
                         idx + 1))))"

definition colorsRow ::
  "'n arith \<Rightarrow> nat \<Rightarrow> nat \<Rightarrow> nat \<Rightarrow> 'n list \<Rightarrow> 'n list
   \<Rightarrow> 'n list \<times> nat \<Rightarrow> nat \<Rightarrow> 'n list \<times> nat" where
  "colorsRow ar numRows numCols numChannels img cimg s y =
     (if y mod DOWNSCALE_FACTOR \<noteq> 0 then s
      else foldl (colorsPixel ar numRows numCols numChannels img cimg y) s [0..<numCols])"

definition renderPointCloud :: "'n arith \<Rightarrow> 'n camera \<Rightarrow> js_error + ('n camera \<times> bool)" where
  "renderPointCloud ar camera =
     (case (depthImage camera, intrinsic camera) of
        (Some img, Some K) \<Rightarrow>
          (case depthDim camera of (numRows, numCols, _) \<Rightarrow>
             (case points_position camera of
                None \<Rightarrow> Inl TypeError
              | Some buffer \<Rightarrow>
                  (case foldl (pointsRow ar K numRows numCols img) (buffer, 0) [0..<numRows] of
                     (buffer', idx) \<Rightarrow>
                       let camera1 = camera\<lparr>points_position := Some buffer',
                                             points_drawRange := (0, idx)\<rparr>
                       in (case colorDim camera of (numColorRows, numColorCols, numChannels) \<Rightarrow>
                             if colorImage camera = None \<or> numColorRows \<noteq> numRows
                                \<or> numColorCols \<noteq> numCols
                             then Inr (camera1, True)
                             else (case points_color camera1 of
                                     None \<Rightarrow> Inl TypeError
                                   | Some colorBuffer \<Rightarrow>
                                       (case foldl (colorsRow ar numRows numCols numChannels img
                                                      (the (colorImage camera)))
                                               (colorBuffer, 0) [0..<numRows] of
                                          (colorBuffer', _) \<Rightarrow>
                                            Inr (camera1\<lparr>points_color := Some colorBuffer'\<rparr>,
                                                 True)))))))
      | _ \<Rightarrow> Inr (camera, False))"

subsection \<open>renderCameraViewFrame\<close>

text \<open>
  The corner pixels are computed from the depth dimensions, which are \<open>[0, 0, 0]\<close> before
  the first depth image: \<^verbatim>\<open>numCols - 1\<close> may be \<open>-1\<close>, so pixel coordinates are integers
  here. Lines 0 to 3 run from the origin to a corner, lines 4 to 7 join the corners.
\<close>

definition cornerRay :: "'n arith \<Rightarrow> 'n intrinsic \<Rightarrow> int \<times> int \<Rightarrow> 'n list" where
  "cornerRay ar K corner =
     (case corner of (y, x) \<Rightarrow>
        [fdiv ar (fsub ar (num ar x) (k02 K)) (k00 K),
         fdiv ar (fsub ar (num ar y) (k12 K)) (k11 K),
         num ar 1])"

definition storeAll :: "'n arith \<Rightarrow> 'n list \<Rightarrow> nat \<Rightarrow> 'n list \<Rightarrow> 'n list" where
  "storeAll ar array off vs =
     foldl (\<lambda>a j. store ar a (j + off) (vs ! j)) array [0..<length vs]"

definition renderCameraViewFrame :: "'n arith \<Rightarrow> 'n camera \<Rightarrow> 'n camera \<times> bool" where
  "renderCameraViewFrame ar camera =
     (case intrinsic camera of
        None \<Rightarrow> (camera, False)
      | Some K \<Rightarrow>
          (case depthDim camera of (numRows, numCols, _) \<Rightarrow>
             let corners = map (cornerRay ar K)
                             [(0, 0), (0, int numCols - 1),
                              (int numRows - 1, int numCols - 1), (int numRows - 1, 0)];
                 toCorners = foldl (\<lambda>ls i. ls[i := storeAll ar (ls ! i) 3 (corners ! i)])
                               (frame_lines camera) [0..<4];
                 between = foldl (\<lambda>ls i. ls[i := storeAll ar
                                                    (storeAll ar (ls ! i) 0 (corners ! (i mod 4)))
                                                    3 (corners ! ((i + 1) mod 4))])
                             toCorners [4..<8]
             in (camera\<lparr>frame_lines := between\<rparr>, True)))"

subsection \<open>Vocabulary for the reprojector's properties\<close>

text \<open>
  The pixels the loops visit, in raster order, and the test a visited pixel must pass
  for a point to be written.
\<close>

definition sampledPixels :: "nat \<Rightarrow> nat \<Rightarrow> (nat \<times> nat) list" where
  "sampledPixels numRows numCols =
     [(y, x). y \<leftarrow> [0..<numRows], y mod DOWNSCALE_FACTOR = 0,
              x \<leftarrow> [0..<numCols], x mod DOWNSCALE_FACTOR = 0]"

definition emitsPoint :: "'n arith \<Rightarrow> 'n list \<Rightarrow> nat \<Rightarrow> nat \<times> nat \<Rightarrow> bool" where
  "emitsPoint ar img numCols p =
     (case p of (y, x) \<Rightarrow>
        (case depthAt ar img (numCols * y + x) of
           None \<Rightarrow> False
         | Some d \<Rightarrow> \<not> isNaN ar d \<and> \<not> le_zero ar d))"

definition emittedPoint ::
  "'n arith \<Rightarrow> 'n intrinsic \<Rightarrow> 'n list \<Rightarrow> nat \<Rightarrow> nat \<Rightarrow> nat \<times> nat \<Rightarrow> 'n list" where
  "emittedPoint ar K img numRows numCols p =
     (case p of (y, x) \<Rightarrow>
        map (fround ar)
          (backProject ar K numRows y x (fdiv ar (img ! (numCols * y + x)) (num ar 1000))))"

text \<open>
  Writing a point, or a list of points, into the position array from item \<open>idx\<close> on,
  without rounding, a write past the end being ignored.
\<close>

definition writePoint :: "'n list \<Rightarrow> nat \<Rightarrow> 'n list \<Rightarrow> 'n list" where
  "writePoint buffer idx p =
     foldl (\<lambda>b j. if 3 * idx + j < length b then b[3 * idx + j := p ! j] else b) buffer [0..<3]"

fun writePoints :: "'n list \<Rightarrow> nat \<Rightarrow> 'n list list \<Rightarrow> 'n list" where
  "writePoints buffer idx [] = buffer"
| "writePoints buffer idx (p # ps) = writePoints (writePoint buffer idx p) (Suc idx) ps"

subsection \<open>An arithmetic with infinities\<close>

text \<open>
  A number system to run the reprojector on: the rationals with the two infinities and
  \<^verbatim>\<open>NaN\<close>. Finite results are exact (no rounding, no overflow, one zero); an operation
  on an infinity or on \<^verbatim>\<open>NaN\<close> gives what IEEE arithmetic gives.
\<close>

datatype jsnum = NaN | PosInf | NegInf | Fin rat

definition sign_of :: "jsnum \<Rightarrow> int" where
  "sign_of a = (case a of NaN \<Rightarrow> 0 | PosInf \<Rightarrow> 1 | NegInf \<Rightarrow> - 1
                | Fin x \<Rightarrow> (if x < 0 then - 1 else if x = 0 then 0 else 1))"

definition inf_of :: "int \<Rightarrow> jsnum" where
  "inf_of s = (if s < 0 then NegInf else if s = 0 then NaN else PosInf)"

definition js_sub :: "jsnum \<Rightarrow> jsnum \<Rightarrow> jsnum" where
  "js_sub a b =
     (case (a, b) of
        (NaN, _) \<Rightarrow> NaN
      | (_, NaN) \<Rightarrow> NaN
      | (Fin x, Fin y) \<Rightarrow> Fin (x - y)
      | (Fin x, PosInf) \<Rightarrow> NegInf
      | (Fin x, NegInf) \<Rightarrow> PosInf
      | (PosInf, PosInf) \<Rightarrow> NaN
      | (NegInf, NegInf) \<Rightarrow> NaN
      | (PosInf, _) \<Rightarrow> PosInf
      | (NegInf, _) \<Rightarrow> NegInf)"

definition js_mul :: "jsnum \<Rightarrow> jsnum \<Rightarrow> jsnum" where
  "js_mul a b =
     (case (a, b) of
        (NaN, _) \<Rightarrow> NaN
      | (_, NaN) \<Rightarrow> NaN
      | (Fin x, Fin y) \<Rightarrow> Fin (x * y)
      | _ \<Rightarrow> inf_of (sign_of a * sign_of b))"

definition js_div :: "jsnum \<Rightarrow> jsnum \<Rightarrow> jsnum" where
  "js_div a b =
     (case (a, b) of
        (NaN, _) \<Rightarrow> NaN
      | (_, NaN) \<Rightarrow> NaN
      | (Fin x, Fin y) \<Rightarrow> (if y = 0 then inf_of (sign_of a) else Fin (x / y))
      | (Fin x, _) \<Rightarrow> Fin 0
      | (_, Fin y) \<Rightarrow> inf_of (sign_of a * (if y < 0 then - 1 else 1))
      | _ \<Rightarrow> NaN)"

definition ideal_arith :: "jsnum arith" where
  "ideal_arith =
     \<lparr>num = (\<lambda>i. Fin (of_int i)), fsub = js_sub, fmul = js_mul, fdiv = js_div,
      isNaN = (\<lambda>a. a = NaN),
      le_zero = (\<lambda>a. case a of Fin x \<Rightarrow> x \<le> 0 | NegInf \<Rightarrow> True | _ \<Rightarrow> False),
      fround = (\<lambda>a. a), nan = NaN\<rparr>"

definition isFinite :: "jsnum \<Rightarrow> bool" where
  "isFinite a = (case a of Fin _ \<Rightarrow> True | _ \<Rightarrow> False)"

definition demo_intrinsic :: "jsnum intrinsic" where
  "demo_intrinsic = \<lparr>k00 = Fin 1, k02 = Fin 0, k11 = Fin 1, k12 = Fin 0\<rparr>"

definition demo_camera :: "jsnum list \<Rightarrow> nat \<times> nat \<times> nat \<Rightarrow> nat \<Rightarrow> jsnum camera" where
  "demo_camera img dims len =
     (Camera_create ideal_arith)
       \<lparr>depthImage := Some img, depthDim := dims, intrinsic := Some demo_intrinsic,
        points_position := Some (replicate len (Fin 0)),
        points_color := Some (replicate len (Fin 1))\<rparr>"

section \<open>Simulator: definitions\<close>

text \<open>
  The second part of the source file holds the simulator: the registry of update
  callbacks, the four dictionaries of live components and the function that handles one
  message. Its state is modelled as a record. Components are objects with identity: they
  live in a store and are named by their index in it, so that a callback or a pending
  task can go on referring to a component that is no longer in any dictionary.
\<close>

subsection \<open>Values and their conversion\<close>

text \<open>
  A callback receives a string, a matrix of strings (\<^verbatim>\<open>stringToMatrix\<close>) or an
  \<^verbatim>\<open>ArrayBuffer\<close>. \<^verbatim>\<open>trim\<close> removes the white space of the Latin-1 range at both ends.
\<close>

datatype redis_value = VString jsstring | VMatrix "jsstring list list" | VBinary "byte list"

definition isSpace :: "byte \<Rightarrow> bool" where
  "isSpace b = (unat b \<in> {9, 10, 11, 12, 13, 32, 160})"

definition trim :: "jsstring \<Rightarrow> jsstring" where
  "trim s = rev (dropWhile isSpace (rev (dropWhile isSpace s)))"

fun split :: "byte \<Rightarrow> jsstring \<Rightarrow> jsstring list" where
  "split sep [] = [[]]"
| "split sep (c # cs) =
     (if c = sep then [] # split sep cs
      else (case split sep cs of [] \<Rightarrow> [[c]] | w # ws \<Rightarrow> (c # w) # ws))"

definition stringToMatrix :: "jsstring \<Rightarrow> jsstring list list" where
  "stringToMatrix s = map (\<lambda>row. split 32 (trim row)) (split 59 (trim s))"

definition startsWith :: "jsstring \<Rightarrow> jsstring \<Rightarrow> bool" where
  "startsWith s p = (take (length p) s = p)"

subsection \<open>What the simulator takes from outside\<close>

text \<open>
  The simulator calls into the browser and into libraries that are not part of the
  repository; what they do is a parameter of the model, one field each:
  \<^item> \<open>JSON_args\<close> and \<open>JSON_model\<close>: \<^verbatim>\<open>JSON.parse\<close> of an argument record and of a model
    record, \<open>None\<close> when it throws; an absent prefix is the string \<^verbatim>\<open>undefined\<close>, as
    \<^verbatim>\<open>startsWith\<close> reads it;
  \<^item> \<open>modelField\<close>: a key name declared by a model, \<open>None\<close> when absent;
  \<^item> \<open>create\<close>: the \<^verbatim>\<open>create\<close> function of a component kind building the three.js
    object, \<open>None\<close> when it throws;
  \<^item> \<open>applyUpdate\<close>: the effect of an update callback on the three.js object and its
    return value, \<open>None\<close> when it throws (the position, orientation, scale and matrix
    setters, \<^verbatim>\<open>Robot.updateQ\<close>, \<^verbatim>\<open>Trajectory.appendPosition\<close>);
  \<^item> \<open>makeIntrinsic\<close>: \<^verbatim>\<open>Redis.makeNumeric\<close> of an intrinsic matrix;
  \<^item> \<open>parseOpenCvMat\<close>: the image decoder, giving the image the promise resolves to
    and its dimensions, \<open>None\<close> when it throws;
  \<^item> \<open>isNumeric\<close>: \<^verbatim>\<open>!isNaN(parseFloat(s))\<close>;
  \<^item> \<open>formExists\<close>, \<open>getValue\<close>, \<open>getKeys\<close>, \<open>updateForm\<close>, \<open>deleteForm\<close>: the HTML
    forms of the side bar, whose state is the type \<open>'f\<close>;
  \<^item> \<open>engine_maxArguments\<close>: the number of arguments the engine accepts in a call, which the
    decoder depends on.
  The mouse interaction is taken to be idle, so that \<^verbatim>\<open>updateInteraction\<close> returns at once,
  and the functions of the forms are taken to return: where one of them throws, the
  program stops at a point the model goes past.
\<close>

datatype kind = Robot | GraphicsObject | Trajectory | Camera

datatype callback =
    RobotUpdateQ | RobotUpdatePosition | RobotUpdateOrientation
  | ObjectUpdatePosition | ObjectUpdateOrientation | ObjectUpdateScale | ObjectUpdateMatrix
  | TrajectoryAppendPosition
  | CameraUpdatePosition | CameraUpdateOrientation | CameraUpdateIntrinsic
  | CameraUpdateDepthImage | CameraUpdateColorImage

datatype field =
    key_q | key_pos | key_ori | key_scale | key_matrix
  | key_intrinsic | key_depth_image | key_color_image

record prefixes =
  key_cameras_prefix :: jsstring
  key_objects_prefix :: jsstring
  key_robots_prefix :: jsstring
  key_trajectories_prefix :: jsstring

record ('n, 'c, 'm, 'f) env =
  arith :: "'n arith"
  JSON_args :: "jsstring \<Rightarrow> prefixes option"
  JSON_model :: "redis_value \<Rightarrow> 'm option"
  modelField :: "'m \<Rightarrow> field \<Rightarrow> jsstring option"
  create :: "kind \<Rightarrow> 'm \<Rightarrow> 'c option"
  applyUpdate :: "callback \<Rightarrow> 'c \<Rightarrow> redis_value \<Rightarrow> 'c \<times> bool option"
  makeIntrinsic :: "redis_value \<Rightarrow> 'n intrinsic option"
  parseOpenCvMat :: "byte list \<Rightarrow> ('n list \<times> (nat \<times> nat \<times> nat)) option"
  isNumeric :: "jsstring \<Rightarrow> bool"
  formExists :: "'f \<Rightarrow> jsstring \<Rightarrow> bool"
  getValue :: "'f \<Rightarrow> jsstring \<Rightarrow> redis_value"
  getKeys :: "'f \<Rightarrow> jsstring list"
  updateForm :: "'f \<Rightarrow> jsstring \<Rightarrow> redis_value option \<Rightarrow> 'f"
  deleteForm :: "'f \<Rightarrow> jsstring \<Rightarrow> 'f"
  engine_maxArguments :: nat

subsection \<open>State\<close>

text \<open>
  A component is the three.js object \<open>'c\<close>, with the camera state beside it for a
  camera. A registered callback is the closure over a component and an update function.
  A task is a promise callback that has not run yet: the \<^verbatim>\<open>then\<close> callbacks of the two
  image decoders and the load callback of a robot or an object. \<open>renders\<close> counts the
  calls of \<^verbatim>\<open>renderer.render\<close>. \<open>invoked\<close> is a log the source does not have: the key,
  the component key and the result of every callback the dispatch loop has called.

  The dictionaries are plain objects that share \<^verbatim>\<open>Object.prototype\<close>. Three assignments of
  the program can reach an inherited object instead of a dictionary: a callback registered
  under a Redis key that is an inherited name is stored on the inherited function (on
  \<^verbatim>\<open>Object.prototype\<close> itself for \<^verbatim>\<open>__proto__\<close>), and a component or an argument record
  assigned to \<^verbatim>\<open>__proto__\<close> replaces the prototype of its dictionary. What every later
  lookup then finds is outside this model: \<open>prototypeWritten\<close> records that such an
  assignment has happened, it is never reset, and the properties of the simulator are
  stated for the runs in which it has not.
\<close>

datatype ('n, 'c) component = Plain 'c | Cam 'c "'n camera"

datatype 'n task =
    DepthDecoded nat "'n list" "nat \<times> nat \<times> nat"
  | ColorDecoded nat "'n list" "nat \<times> nat \<times> nat"
  | Loaded kind jsstring nat

record ('n, 'c, 'f) sim =
  store_of :: "('n, 'c) component list"
  scene :: "nat list"
  robots :: "nat js_object"
  objects :: "nat js_object"
  trajectories :: "nat js_object"
  cameras :: "nat js_object"
  redisUpdateCallbacks :: "(nat \<times> callback) js_object js_object"
  args :: "prefixes js_object"
  forms :: 'f
  renders :: nat
  handlingMessage :: bool
  updatingDepth :: bool
  updatingColor :: bool
  pending :: "'n task list"
  invoked :: "(jsstring \<times> jsstring \<times> bool) list"
  prototypeWritten :: bool

definition initial :: "'f \<Rightarrow> ('n, 'c, 'f) sim" where
  "initial f =
     \<lparr>store_of = [], scene = [], robots = [], objects = [], trajectories = [], cameras = [],
      redisUpdateCallbacks = [], args = [], forms = f, renders = 0,
      handlingMessage = False, updatingDepth = False, updatingColor = False,
      pending = [], invoked = [], prototypeWritten = False\<rparr>"

definition components :: "kind \<Rightarrow> ('n, 'c, 'f) sim \<Rightarrow> nat js_object" where
  "components k st =
     (case k of Robot \<Rightarrow> robots st | GraphicsObject \<Rightarrow> objects st
      | Trajectory \<Rightarrow> trajectories st | Camera \<Rightarrow> cameras st)"

definition setComponents ::
  "kind \<Rightarrow> nat js_object \<Rightarrow> ('n, 'c, 'f) sim \<Rightarrow> ('n, 'c, 'f) sim" where
  "setComponents k d st =
     (case k of Robot \<Rightarrow> st\<lparr>robots := d\<rparr> | GraphicsObject \<Rightarrow> st\<lparr>objects := d\<rparr>
      | Trajectory \<Rightarrow> st\<lparr>trajectories := d\<rparr> | Camera \<Rightarrow> st\<lparr>cameras := d\<rparr>)"

definition objectOf :: "('n, 'c) component \<Rightarrow> 'c" where
  "objectOf co = (case co of Plain c \<Rightarrow> c | Cam c _ \<Rightarrow> c)"

definition withObject :: "('n, 'c) component \<Rightarrow> 'c \<Rightarrow> ('n, 'c) component" where
  "withObject co c = (case co of Plain _ \<Rightarrow> Plain c | Cam _ cam \<Rightarrow> Cam c cam)"

definition cameraOf :: "('n, 'c, 'f) sim \<Rightarrow> nat \<Rightarrow> 'n camera option" where
  "cameraOf st r =
     (if r < length (store_of st)
      then (case store_of st ! r of Cam _ cam \<Rightarrow> Some cam | Plain _ \<Rightarrow> None)
      else None)"

definition setCamera :: "('n, 'c, 'f) sim \<Rightarrow> nat \<Rightarrow> 'n camera \<Rightarrow> ('n, 'c, 'f) sim" where
  "setCamera st r cam =
     st\<lparr>store_of := (store_of st)[r := Cam (objectOf (store_of st ! r)) cam]\<rparr>"

text \<open>
  An entity is live when one of the four dictionaries holds it.
\<close>

definition live :: "('n, 'c, 'f) sim \<Rightarrow> nat \<Rightarrow> bool" where
  "live st r =
     (r \<in> set (map snd (robots st)) \<or> r \<in> set (map snd (objects st))
      \<or> r \<in> set (map snd (trajectories st)) \<or> r \<in> set (map snd (cameras st)))"

subsection \<open>Exceptions\<close>

text \<open>
  A function of the simulator either returns, or throws and leaves the state as it was
  at the throw: \<^verbatim>\<open>parseModels\<close> catches exceptions and goes on with that state.
\<close>

datatype ('s, 'a) outcome = Threw 's | Returned 's 'a

definition andThen ::
  "('s, 'a) outcome \<Rightarrow> ('s \<Rightarrow> 'a \<Rightarrow> ('s, 'b) outcome) \<Rightarrow> ('s, 'b) outcome" where
  "andThen m f = (case m of Threw s \<Rightarrow> Threw s | Returned s a \<Rightarrow> f s a)"

definition stateOf :: "('s, 'a) outcome \<Rightarrow> 's" where
  "stateOf m = (case m of Threw s \<Rightarrow> s | Returned s _ \<Rightarrow> s)"

subsection \<open>The image callbacks of a camera\<close>

text \<open>
  \<^verbatim>\<open>updateDepthImage\<close> and \<^verbatim>\<open>updateColorImage\<close> return \<^verbatim>\<open>false\<close> at once for a value that
  is not an \<^verbatim>\<open>ArrayBuffer\<close> and while a decode of the same stream is outstanding (the two
  flags are variables of the camera module, shared by all cameras). Otherwise they set
  the flag, start the decode and leave its \<^verbatim>\<open>then\<close> callback pending. The camera the
  callback will write to is the one the closure captured.
\<close>

definition updateDepthImage ::
  "('n, 'c, 'm, 'f) env \<Rightarrow> ('n, 'c, 'f) sim \<Rightarrow> nat \<Rightarrow> redis_value
   \<Rightarrow> (('n, 'c, 'f) sim, bool) outcome" where
  "updateDepthImage e st camera opencv_mat =
     (case opencv_mat of
        VBinary bytes \<Rightarrow>
          if updatingDepth st then Returned st False
          else (case parseOpenCvMat e bytes of
                  None \<Rightarrow> Threw (st\<lparr>updatingDepth := True\<rparr>)
                | Some (img, dims) \<Rightarrow>
                    Returned (st\<lparr>updatingDepth := True,
                                  pending := pending st @ [DepthDecoded camera img dims]\<rparr>)
                      False)
      | _ \<Rightarrow> Returned st False)"

definition updateColorImage ::
  "('n, 'c, 'm, 'f) env \<Rightarrow> ('n, 'c, 'f) sim \<Rightarrow> nat \<Rightarrow> redis_value
   \<Rightarrow> (('n, 'c, 'f) sim, bool) outcome" where
  "updateColorImage e st camera opencv_mat =
     (case opencv_mat of
        VBinary bytes \<Rightarrow>
          if updatingColor st then Returned st False
          else (case parseOpenCvMat e bytes of
                  None \<Rightarrow> Threw (st\<lparr>updatingColor := True\<rparr>)
                | Some (img, dims) \<Rightarrow>
                    Returned (st\<lparr>updatingColor := True,
                                  pending := pending st @ [ColorDecoded camera img dims]\<rparr>)
                      False)
      | _ \<Rightarrow> Returned st False)"

text \<open>
  The \<^verbatim>\<open>then\<close> callbacks. The first depth image allocates the two arrays of the point
  cloud, of \<open>3 * img.length / 4\<close> floats (the typed-array constructor drops the fraction),
  the colours preset to 1. An exception inside a \<^verbatim>\<open>then\<close> callback rejects the promise
  and goes no further; the state stays as it was at the throw.
\<close>

definition depthImageDecoded ::
  "('n, 'c, 'm, 'f) env \<Rightarrow> ('n, 'c, 'f) sim \<Rightarrow> nat \<Rightarrow> 'n list \<Rightarrow> nat \<times> nat \<times> nat
   \<Rightarrow> ('n, 'c, 'f) sim" where
  "depthImageDecoded e st camera img dims =
     (case cameraOf st camera of
        None \<Rightarrow> st
      | Some spec \<Rightarrow>
          let len_buffer = 3 * length img div (DOWNSCALE_FACTOR * DOWNSCALE_FACTOR);
              spec1 = (if depthImage spec = None
                       then spec\<lparr>points_position := Some (replicate len_buffer (num (arith e) 0)),
                                 points_drawRange := (0, 0),
                                 points_color :=
                                   Some (replicate len_buffer
                                           (fround (arith e) (num (arith e) 1)))\<rparr>
                       else spec);
              spec2 = spec1\<lparr>depthImage := Some img, depthDim := dims\<rparr>;
              spec3 = fst (renderCameraViewFrame (arith e) spec2)
          in (case renderPointCloud (arith e) spec3 of
                Inl _ \<Rightarrow> setCamera st camera spec3
              | Inr (spec4, _) \<Rightarrow>
                  let st1 = setCamera st camera spec4 in
                  if \<not> updatingColor st1
                  then st1\<lparr>renders := renders st1 + 1, updatingDepth := False\<rparr>
                  else st1\<lparr>updatingDepth := False\<rparr>))"

definition colorImageDecoded ::
  "('n, 'c, 'm, 'f) env \<Rightarrow> ('n, 'c, 'f) sim \<Rightarrow> nat \<Rightarrow> 'n list \<Rightarrow> nat \<times> nat \<times> nat
   \<Rightarrow> ('n, 'c, 'f) sim" where
  "colorImageDecoded e st camera img dims =
     (case cameraOf st camera of
        None \<Rightarrow> st
      | Some spec \<Rightarrow>
          let spec2 = spec\<lparr>colorImage := Some img, colorDim := dims\<rparr>
          in (case renderPointCloud (arith e) spec2 of
                Inl _ \<Rightarrow> setCamera st camera spec2
              | Inr (spec3, _) \<Rightarrow>
                  let st1 = setCamera st camera spec3 in
                  if \<not> updatingDepth st1
                  then st1\<lparr>renders := renders st1 + 1, updatingColor := False\<rparr>
                  else st1\<lparr>updatingColor := False\<rparr>))"

definition updateIntrinsic ::
  "('n, 'c, 'm, 'f) env \<Rightarrow> ('n, 'c, 'f) sim \<Rightarrow> nat \<Rightarrow> redis_value
   \<Rightarrow> (('n, 'c, 'f) sim, bool) outcome" where
  "updateIntrinsic e st camera val =
     (case cameraOf st camera of
        None \<Rightarrow> Threw st
      | Some spec \<Rightarrow>
          (case makeIntrinsic e val of
             None \<Rightarrow> Threw st
           | Some K \<Rightarrow>
               (case renderCameraViewFrame (arith e) (spec\<lparr>intrinsic := Some K\<rparr>) of
                  (spec1, framed) \<Rightarrow>
                    if \<not> framed then Returned (setCamera st camera spec1) False
                    else (case renderPointCloud (arith e) spec1 of
                            Inl _ \<Rightarrow> Threw (setCamera st camera spec1)
                          | Inr (spec2, r) \<Rightarrow> Returned (setCamera st camera spec2) r))))"

subsection \<open>The registry\<close>

text \<open>
  Calling a registered closure. The image callbacks and the intrinsic callback of a
  camera are the functions above; every other callback acts on the three.js object.
\<close>

definition invokeCallback ::
  "('n, 'c, 'm, 'f) env \<Rightarrow> ('n, 'c, 'f) sim \<Rightarrow> nat \<times> callback \<Rightarrow> redis_value
   \<Rightarrow> (('n, 'c, 'f) sim, bool) outcome" where
  "invokeCallback e st h val =
     (case h of (component, cb) \<Rightarrow>
        if cb = CameraUpdateDepthImage then updateDepthImage e st component val
        else if cb = CameraUpdateColorImage then updateColorImage e st component val
        else if cb = CameraUpdateIntrinsic then updateIntrinsic e st component val
        else if component < length (store_of st) then
          (case applyUpdate e cb (objectOf (store_of st ! component)) val of
             (c', r) \<Rightarrow>
               let st1 = st\<lparr>store_of :=
                               (store_of st)[component := withObject (store_of st ! component) c']\<rparr>
               in (case r of None \<Rightarrow> Threw st1 | Some b \<Rightarrow> Returned st1 b))
        else Threw st)"

text \<open>
  \<^verbatim>\<open>registerRedisUpdateCallback\<close>. The entry of a key is an array, created when
  \<^verbatim>\<open>key in redisUpdateCallbacks\<close> is false, and the closure is assigned to its property
  \<open>keyComponent\<close>. An array has the own property \<^verbatim>\<open>length\<close>: assigning a function to it
  throws \<^verbatim>\<open>RangeError\<close>. When the key is an inherited name there is no entry and the
  assignment goes to the inherited object. Last, the callback is called at once when the
  key has a form; its result is dropped.
\<close>

definition callIfFormExists ::
  "('n, 'c, 'm, 'f) env \<Rightarrow> ('n, 'c, 'f) sim \<Rightarrow> jsstring \<Rightarrow> nat \<Rightarrow> callback
   \<Rightarrow> (('n, 'c, 'f) sim, unit) outcome" where
  "callIfFormExists e st key component updateCallback =
     (if formExists e (forms st) key
      then andThen (invokeCallback e st (component, updateCallback) (getValue e (forms st) key))
             (\<lambda>st1 _. Returned st1 ())
      else Returned st ())"

definition registerRedisUpdateCallback ::
  "('n, 'c, 'm, 'f) env \<Rightarrow> ('n, 'c, 'f) sim \<Rightarrow> jsstring \<Rightarrow> jsstring \<Rightarrow> nat \<Rightarrow> callback
   \<Rightarrow> (('n, 'c, 'f) sim, unit) outcome" where
  "registerRedisUpdateCallback e st key keyComponent component updateCallback =
     (if key = [] then Returned st ()
      else
        let created = (if \<not> js_in key (redisUpdateCallbacks st)
                       then js_set (redisUpdateCallbacks st) key []
                       else redisUpdateCallbacks st)
        in (case js_get created key of
              None \<Rightarrow>
                callIfFormExists e
                  (st\<lparr>redisUpdateCallbacks := created, prototypeWritten := True\<rparr>)
                  key component updateCallback
            | Some entry \<Rightarrow>
                if keyComponent = ascii ''length''
                then Threw (st\<lparr>redisUpdateCallbacks := created\<rparr>)
                else callIfFormExists e
                       (st\<lparr>redisUpdateCallbacks :=
                             js_set created key
                               (js_set entry keyComponent (component, updateCallback))\<rparr>)
                       key component updateCallback))"

text \<open>
  \<^verbatim>\<open>unregisterRedisUpdateCallback\<close> visits the own keys of the registry. For each entry,
  \<^verbatim>\<open>keyComponent in entry\<close> guards a \<^verbatim>\<open>delete\<close>, which removes an own property and does
  nothing for a name the array only inherits. The own property \<^verbatim>\<open>length\<close> of an array
  cannot be deleted: in the code of a module \<^verbatim>\<open>delete\<close> throws \<^verbatim>\<open>TypeError\<close> for it, at the
  first entry.
\<close>

definition unregisterRedisUpdateCallback ::
  "('n, 'c, 'f) sim \<Rightarrow> jsstring \<Rightarrow> (('n, 'c, 'f) sim, unit) outcome" where
  "unregisterRedisUpdateCallback st keyComponent =
     (if keyComponent = ascii ''length'' \<and> redisUpdateCallbacks st \<noteq> [] then Threw st
      else Returned
             (st\<lparr>redisUpdateCallbacks :=
                   map (\<lambda>kv. (fst kv, js_delete (snd kv) keyComponent))
                     (redisUpdateCallbacks st)\<rparr>) ())"

subsection \<open>Creating components\<close>

text \<open>
  \<^verbatim>\<open>addComponentToScene\<close>. The load callback it passes to \<^verbatim>\<open>create\<close> renders only if the
  dictionary holds the very component it was made for. A camera and a trajectory call
  it before \<^verbatim>\<open>create\<close> returns, when the dictionary cannot hold the new component yet,
  so it does nothing; a robot and an object call it from a promise, and it is a task.
  \<^verbatim>\<open>scene.remove\<close> of a value that is not in the scene, such as the function an inherited
  name reads, does nothing.
\<close>

definition sceneRemove :: "nat option \<Rightarrow> nat list \<Rightarrow> nat list" where
  "sceneRemove found children =
     (case found of None \<Rightarrow> children | Some old \<Rightarrow> remove1 old children)"

definition addComponentToScene ::
  "('n, 'c, 'm, 'f) env \<Rightarrow> ('n, 'c, 'f) sim \<Rightarrow> kind \<Rightarrow> jsstring \<Rightarrow> 'm
   \<Rightarrow> (('n, 'c, 'f) sim, nat) outcome" where
  "addComponentToScene e st k key model =
     (case create e k model of
        None \<Rightarrow> Threw st
      | Some obj \<Rightarrow>
          let component = length (store_of st);
              st1 = st\<lparr>store_of := store_of st
                          @ [if k = Camera then Cam obj (Camera_create (arith e)) else Plain obj],
                        pending := pending st
                          @ (if k = Robot \<or> k = GraphicsObject then [Loaded k key component]
                             else [])\<rparr>;
              st2 = (if js_in key (components k st1)
                     then setComponents k (js_delete (components k st1) key)
                            (st1\<lparr>scene :=
                                   sceneRemove (js_get (components k st1) key) (scene st1)\<rparr>)
                     else st1);
              st3 = setComponents k (js_set (components k st2) key component)
                      (st2\<lparr>prototypeWritten :=
                             prototypeWritten st2 \<or> key = ascii ''__proto__''\<rparr>)
          in Returned (st3\<lparr>scene := scene st3 @ [component], renders := renders st3 + 1\<rparr>)
               component)"

definition componentLoaded ::
  "('n, 'c, 'f) sim \<Rightarrow> kind \<Rightarrow> jsstring \<Rightarrow> nat \<Rightarrow> ('n, 'c, 'f) sim" where
  "componentLoaded st k key component =
     (if js_get (components k st) key = Some component
      then st\<lparr>renders := renders st + 1\<rparr> else st)"

definition fieldKey :: "('n, 'c, 'm, 'f) env \<Rightarrow> 'm \<Rightarrow> field \<Rightarrow> jsstring" where
  "fieldKey e model f =
     (case modelField e model f of None \<Rightarrow> ascii ''undefined'' | Some s \<Rightarrow> s)"

definition isModelKey ::
  "('n, 'c, 'f) sim \<Rightarrow> jsstring \<Rightarrow> (prefixes \<Rightarrow> jsstring) \<Rightarrow> bool" where
  "isModelKey st key keyPrefix =
     list_ex (\<lambda>a. keyPrefix (snd a) \<noteq> [] \<and> startsWith key (keyPrefix (snd a))) (args st)"

fun registerAll ::
  "('n, 'c, 'm, 'f) env \<Rightarrow> ('n, 'c, 'f) sim \<Rightarrow> jsstring \<Rightarrow> nat
   \<Rightarrow> (jsstring \<times> callback) list \<Rightarrow> (('n, 'c, 'f) sim, unit) outcome" where
  "registerAll e st keyComponent component [] = Returned st ()"
| "registerAll e st keyComponent component ((key, cb) # rest) =
     andThen (registerRedisUpdateCallback e st key keyComponent component cb)
       (\<lambda>st1 _. registerAll e st1 keyComponent component rest)"

definition parseModel ::
  "('n, 'c, 'm, 'f) env \<Rightarrow> ('n, 'c, 'f) sim \<Rightarrow> kind \<Rightarrow> (prefixes \<Rightarrow> jsstring)
   \<Rightarrow> ('m \<Rightarrow> (jsstring \<times> callback) list) \<Rightarrow> jsstring \<Rightarrow> redis_value
   \<Rightarrow> (('n, 'c, 'f) sim, bool) outcome" where
  "parseModel e st k keyPrefix bindings key val =
     (if \<not> isModelKey st key keyPrefix then Returned st False
      else (case JSON_model e val of
              None \<Rightarrow> Threw st
            | Some model \<Rightarrow>
                andThen (addComponentToScene e st k key model)
                  (\<lambda>st1 component.
                     andThen (registerAll e st1 key component (bindings model))
                       (\<lambda>st2 _. Returned st2 True))))"

definition parseRobotModel ::
  "('n, 'c, 'm, 'f) env \<Rightarrow> ('n, 'c, 'f) sim \<Rightarrow> jsstring \<Rightarrow> redis_value
   \<Rightarrow> (('n, 'c, 'f) sim, bool) outcome" where
  "parseRobotModel e st key val =
     parseModel e st Robot key_robots_prefix
       (\<lambda>model. [(fieldKey e model key_q, RobotUpdateQ),
                   (fieldKey e model key_pos, RobotUpdatePosition),
                   (fieldKey e model key_ori, RobotUpdateOrientation)])
       key val"

definition parseObjectModel ::
  "('n, 'c, 'm, 'f) env \<Rightarrow> ('n, 'c, 'f) sim \<Rightarrow> jsstring \<Rightarrow> redis_value
   \<Rightarrow> (('n, 'c, 'f) sim, bool) outcome" where
  "parseObjectModel e st key val =
     parseModel e st GraphicsObject key_objects_prefix
       (\<lambda>model. [(fieldKey e model key_pos, ObjectUpdatePosition)]
                 @ (if fieldKey e model key_ori \<noteq> []
                    then [(fieldKey e model key_ori, ObjectUpdateOrientation)] else [])
                 @ (if fieldKey e model key_scale \<noteq> []
                    then [(fieldKey e model key_scale, ObjectUpdateScale)] else [])
                 @ (if fieldKey e model key_matrix \<noteq> []
                    then [(fieldKey e model key_matrix, ObjectUpdateMatrix)] else []))
       key val"

definition parseTrajectoryModel ::
  "('n, 'c, 'm, 'f) env \<Rightarrow> ('n, 'c, 'f) sim \<Rightarrow> jsstring \<Rightarrow> redis_value
   \<Rightarrow> (('n, 'c, 'f) sim, bool) outcome" where
  "parseTrajectoryModel e st key val =
     parseModel e st Trajectory key_trajectories_prefix
       (\<lambda>model. [(fieldKey e model key_pos, TrajectoryAppendPosition)])
       key val"

definition parseCameraModel ::
  "('n, 'c, 'm, 'f) env \<Rightarrow> ('n, 'c, 'f) sim \<Rightarrow> jsstring \<Rightarrow> redis_value
   \<Rightarrow> (('n, 'c, 'f) sim, bool) outcome" where
  "parseCameraModel e st key val =
     parseModel e st Camera key_cameras_prefix
       (\<lambda>model. [(fieldKey e model key_pos, CameraUpdatePosition),
                   (fieldKey e model key_ori, CameraUpdateOrientation),
                   (fieldKey e model key_intrinsic, CameraUpdateIntrinsic),
                   (fieldKey e model key_depth_image, CameraUpdateDepthImage),
                   (fieldKey e model key_color_image, CameraUpdateColorImage)])
       key val"

subsection \<open>Handling one message\<close>

text \<open>
  \<^verbatim>\<open>parseModels\<close>: binary values are skipped; the four model parsers are tried in the
  order camera, object, robot, trajectory; an exception in any of them is caught and ends
  the whole function (\<^verbatim>\<open>return false\<close> inside the loop); a key that was a model gets
  its form updated.
\<close>

definition tryModelParsers ::
  "('n, 'c, 'm, 'f) env \<Rightarrow> ('n, 'c, 'f) sim \<Rightarrow> jsstring \<Rightarrow> redis_value
   \<Rightarrow> (('n, 'c, 'f) sim, bool) outcome" where
  "tryModelParsers e st key val =
     andThen (parseCameraModel e st key val) (\<lambda>st1 r1.
       if r1 then Returned st1 True else
       andThen (parseObjectModel e st1 key val) (\<lambda>st2 r2.
         if r2 then Returned st2 True else
         andThen (parseRobotModel e st2 key val) (\<lambda>st3 r3.
           if r3 then Returned st3 True else parseTrajectoryModel e st3 key val)))"

fun parseModels ::
  "('n, 'c, 'm, 'f) env \<Rightarrow> ('n, 'c, 'f) sim \<Rightarrow> payload js_object \<Rightarrow> ('n, 'c, 'f) sim" where
  "parseModels e st [] = st"
| "parseModels e st ((key, val) # rest) =
     (case val of
        Binary _ \<Rightarrow> parseModels e st rest
      | Text s \<Rightarrow>
          (case tryModelParsers e st key (VString s) of
             Threw st1 \<Rightarrow> st1
           | Returned st1 False \<Rightarrow> parseModels e st1 rest
           | Returned st1 True \<Rightarrow>
               parseModels e (st1\<lparr>forms := updateForm e (forms st1) key (Some (VString s))\<rparr>)
                 rest))"

text \<open>
  \<^verbatim>\<open>parseArgs\<close>: a key \<^verbatim>\<open>webapp::simulator::args::<namespace>\<close> (the namespace holding no
  line break, which the regular expression's dot does not match) whose value parses
  stores the prefixes, then every key that has a form and starts with one of the new
  prefixes is parsed as a model of that kind, with the value its form holds. An
  exception of a model parser is not caught here.
\<close>

definition KEY_ARGS :: jsstring where
  "KEY_ARGS = ascii ''webapp::simulator::args''"

definition argsNamespace :: "jsstring \<Rightarrow> jsstring option" where
  "argsNamespace key =
     (let p = KEY_ARGS @ ascii ''::'' in
      if startsWith key p \<and> 10 \<notin> set (drop (length p) key) \<and> 13 \<notin> set (drop (length p) key)
      then Some (drop (length p) key) else None)"

fun loadExisting ::
  "('n, 'c, 'm, 'f) env \<Rightarrow> ('n, 'c, 'f) sim \<Rightarrow> prefixes \<Rightarrow> jsstring list
   \<Rightarrow> (('n, 'c, 'f) sim, unit) outcome" where
  "loadExisting e st a [] = Returned st ()"
| "loadExisting e st a (key # rest) =
     (let val = getValue e (forms st) key in
      andThen
        (if startsWith key (key_cameras_prefix a)
           then andThen (parseCameraModel e st key val) (\<lambda>st1 _. Returned st1 ())
         else if startsWith key (key_objects_prefix a)
           then andThen (parseObjectModel e st key val) (\<lambda>st1 _. Returned st1 ())
         else if startsWith key (key_robots_prefix a)
           then andThen (parseRobotModel e st key val) (\<lambda>st1 _. Returned st1 ())
         else if startsWith key (key_trajectories_prefix a)
           then andThen (parseTrajectoryModel e st key val) (\<lambda>st1 _. Returned st1 ())
         else Returned st ())
        (\<lambda>st1 _. loadExisting e st1 a rest))"

fun parseArgs ::
  "('n, 'c, 'm, 'f) env \<Rightarrow> ('n, 'c, 'f) sim \<Rightarrow> payload js_object
   \<Rightarrow> (('n, 'c, 'f) sim, unit) outcome" where
  "parseArgs e st [] = Returned st ()"
| "parseArgs e st ((key, val) # rest) =
     (case argsNamespace key of
        None \<Rightarrow> parseArgs e st rest
      | Some namespace \<Rightarrow>
          (case (case val of Text s \<Rightarrow> JSON_args e s | Binary _ \<Rightarrow> None) of
             None \<Rightarrow> parseArgs e st rest
           | Some a \<Rightarrow>
               andThen (loadExisting e
                          (st\<lparr>args := js_set (args st) namespace a,
                               prototypeWritten :=
                                 prototypeWritten st \<or> namespace = ascii ''__proto__''\<rparr>)
                          a (getKeys e (forms st)))
                 (\<lambda>st1 _. parseArgs e st1 rest)))"

text \<open>
  \<^verbatim>\<open>parseUpdateKeys\<close>: a numeric string becomes a matrix; when \<^verbatim>\<open>key in
  redisUpdateCallbacks\<close> holds, every callback the entry of the key enumerates is called
  with the value and its result is ORed into \<^verbatim>\<open>renderFrame\<close> (an inherited name has no
  entry and enumerates nothing); the form of the key is updated.
\<close>

definition toValue :: "('n, 'c, 'm, 'f) env \<Rightarrow> payload \<Rightarrow> redis_value" where
  "toValue e val =
     (case val of
        Binary b \<Rightarrow> VBinary b
      | Text s \<Rightarrow> if isNumeric e s then VMatrix (stringToMatrix s) else VString s)"

fun callAll ::
  "('n, 'c, 'm, 'f) env \<Rightarrow> ('n, 'c, 'f) sim \<Rightarrow> jsstring \<Rightarrow> redis_value \<Rightarrow> bool
   \<Rightarrow> (nat \<times> callback) js_object \<Rightarrow> (('n, 'c, 'f) sim, bool) outcome" where
  "callAll e st key val renderFrame [] = Returned st renderFrame"
| "callAll e st key val renderFrame ((keyComponent, updateCallback) # rest) =
     andThen (invokeCallback e st updateCallback val)
       (\<lambda>st1 r. callAll e (st1\<lparr>invoked := invoked st1 @ [(key, keyComponent, r)]\<rparr>)
                    key val (r \<or> renderFrame) rest)"

fun updateKeysLoop ::
  "('n, 'c, 'm, 'f) env \<Rightarrow> ('n, 'c, 'f) sim \<Rightarrow> bool \<Rightarrow> payload js_object
   \<Rightarrow> (('n, 'c, 'f) sim, bool) outcome" where
  "updateKeysLoop e st renderFrame [] = Returned st renderFrame"
| "updateKeysLoop e st renderFrame ((key, p) # rest) =
     (let val = toValue e p in
      andThen
        (if js_in key (redisUpdateCallbacks st)
         then callAll e st key val renderFrame
                (case js_get (redisUpdateCallbacks st) key of None \<Rightarrow> [] | Some entry \<Rightarrow> entry)
         else Returned st renderFrame)
        (\<lambda>st1 renderFrame1.
           updateKeysLoop e
             (st1\<lparr>forms := updateForm e (forms st1) key
                               (case val of VBinary _ \<Rightarrow> None | _ \<Rightarrow> Some val)\<rparr>)
             renderFrame1 rest))"

definition parseUpdateKeys ::
  "('n, 'c, 'm, 'f) env \<Rightarrow> ('n, 'c, 'f) sim \<Rightarrow> payload js_object
   \<Rightarrow> (('n, 'c, 'f) sim, bool) outcome" where
  "parseUpdateKeys e st keyVals = updateKeysLoop e st False keyVals"

text \<open>
  \<^verbatim>\<open>parseDeleteKeys\<close> tests \<^verbatim>\<open>key in robots\<close>, then \<^verbatim>\<open>key in objects\<close>, and looks nowhere
  else. The test is also true for a name the dictionary inherits: then nothing leaves the
  scene or the dictionary, and the callbacks are unregistered and the frame is rendered
  all the same.
\<close>

fun deleteKeysLoop ::
  "('n, 'c, 'm, 'f) env \<Rightarrow> ('n, 'c, 'f) sim \<Rightarrow> bool \<Rightarrow> payload list
   \<Rightarrow> (('n, 'c, 'f) sim, bool) outcome" where
  "deleteKeysLoop e st renderFrame [] = Returned st renderFrame"
| "deleteKeysLoop e st renderFrame (k # rest) =
     (let key = toPropertyKey k in
      andThen
        (if js_in key (robots st) then
           andThen
             (unregisterRedisUpdateCallback
                (st\<lparr>scene := sceneRemove (js_get (robots st) key) (scene st),
                    robots := js_delete (robots st) key\<rparr>) key)
             (\<lambda>st1 _. Returned st1 True)
         else if js_in key (objects st) then
           andThen
             (unregisterRedisUpdateCallback
                (st\<lparr>scene := sceneRemove (js_get (objects st) key) (scene st),
                    objects := js_delete (objects st) key\<rparr>) key)
             (\<lambda>st1 _. Returned st1 True)
         else Returned st renderFrame)
        (\<lambda>st1 renderFrame1.
           deleteKeysLoop e (st1\<lparr>forms := deleteForm e (forms st1) key\<rparr>) renderFrame1 rest))"

definition parseDeleteKeys ::
  "('n, 'c, 'm, 'f) env \<Rightarrow> ('n, 'c, 'f) sim \<Rightarrow> payload list
   \<Rightarrow> (('n, 'c, 'f) sim, bool) outcome" where
  "parseDeleteKeys e st keys = deleteKeysLoop e st False keys"

text \<open>
  \<open>handleBatch\<close> is \<^verbatim>\<open>handleMessage\<close> after the decoding of the buffer.
\<close>

definition handleBatch ::
  "('n, 'c, 'm, 'f) env \<Rightarrow> ('n, 'c, 'f) sim \<Rightarrow> message \<Rightarrow> (('n, 'c, 'f) sim, unit) outcome" where
  "handleBatch e st keys =
     andThen (parseArgs e st (toUpdate keys)) (\<lambda>st1 _.
       andThen (parseUpdateKeys e (parseModels e st1 (toUpdate keys)) (toUpdate keys))
         (\<lambda>st2 renderFrame.
            andThen (parseDeleteKeys e st2 (toDelete keys))
              (\<lambda>st3 deleted.
                 Returned
                   ((if deleted \<or> renderFrame then st3\<lparr>renders := renders st3 + 1\<rparr> else st3)
                      \<lparr>handlingMessage := False\<rparr>) ())))"

definition handleMessage ::
  "('n, 'c, 'm, 'f) env \<Rightarrow> ('n, 'c, 'f) sim \<Rightarrow> byte list \<Rightarrow> (('n, 'c, 'f) sim, unit) outcome" where
  "handleMessage e st buffer =
     (case parseMessage (engine_maxArguments e) buffer of
        Inl _ \<Rightarrow> Threw st
      | Inr keys \<Rightarrow> handleBatch e st keys)"

text \<open>
  Running a pending task: the callback of a promise that has been resolved.
\<close>

definition runTask ::
  "('n, 'c, 'm, 'f) env \<Rightarrow> ('n, 'c, 'f) sim \<Rightarrow> 'n task \<Rightarrow> ('n, 'c, 'f) sim" where
  "runTask e st t =
     (if t \<in> set (pending st) then
        (let st1 = st\<lparr>pending := remove1 t (pending st)\<rparr> in
         case t of
           DepthDecoded camera img dims \<Rightarrow> depthImageDecoded e st1 camera img dims
         | ColorDecoded camera img dims \<Rightarrow> colorImageDecoded e st1 camera img dims
         | Loaded k key component \<Rightarrow> componentLoaded st1 k key component)
      else st)"

subsection \<open>A small instance to run the simulator on\<close>

text \<open>
  Stand-ins for the outside world: the three.js object of a component is the number of
  updates applied to it, every update callback succeeds and returns \<^verbatim>\<open>true\<close>; a model
  record is the list of the key names it declares, all others being the empty string;
  the model and argument texts are the names below instead of JSON; the image decoder
  reads its input as a one-row image; a string is numeric when it starts with a digit;
  the forms are a list of keys and values.
\<close>

type_synonym demo_model = "(field \<times> jsstring) list"
type_synonym demo_forms = "(jsstring \<times> redis_value option) list"

definition demo_args :: prefixes where
  "demo_args =
     \<lparr>key_cameras_prefix = ascii ''cam::'', key_objects_prefix = ascii ''obj::'',
      key_robots_prefix = ascii ''rob::'', key_trajectories_prefix = ascii ''traj::''\<rparr>"

definition demo_models :: "(jsstring \<times> demo_model) list" where
  "demo_models =
     [(ascii ''M1'', [(key_pos, ascii ''a'')]),
      (ascii ''M2'', [(key_pos, ascii ''b'')]),
      (ascii ''C1'', [(key_depth_image, ascii ''d'')]),
      (ascii ''C2'', [(key_depth_image, ascii ''e'')])]"

definition demo_env :: "(jsnum, nat, demo_model, demo_forms) env" where
  "demo_env =
     \<lparr>arith = ideal_arith,
      JSON_args = (\<lambda>s. if s = ascii ''ARGS'' then Some demo_args else None),
      JSON_model = (\<lambda>v. case v of VString s \<Rightarrow> map_of demo_models s | _ \<Rightarrow> None),
      modelField = (\<lambda>m f. Some (case map_of m f of None \<Rightarrow> [] | Some s \<Rightarrow> s)),
      create = (\<lambda>k m. Some 0),
      applyUpdate = (\<lambda>cb c v. (c + 1, Some True)),
      makeIntrinsic = (\<lambda>v. Some demo_intrinsic),
      parseOpenCvMat = (\<lambda>bytes. Some (map (\<lambda>b. Fin (of_nat (unat b))) bytes,
                                         (1, length bytes, 1))),
      isNumeric = (\<lambda>s. case s of [] \<Rightarrow> False | c # _ \<Rightarrow> isDigit c),
      formExists = (\<lambda>f key. key \<in> set (map fst f)),
      getValue = (\<lambda>f key. case map_of f key of Some (Some v) \<Rightarrow> v | _ \<Rightarrow> VString []),
      getKeys = (\<lambda>f. map fst f),
      updateForm = (\<lambda>f key v. if key \<in> set (map fst f)
                                then map (\<lambda>kv. if fst kv = key then (key, v) else kv) f
                                else f @ [(key, v)]),
      deleteForm = (\<lambda>f key. filter (\<lambda>kv. fst kv \<noteq> key) f),
      engine_maxArguments = 65536\<rparr>"

text \<open>
  The state reached from the start by handling messages one after the other, each
  decoded already.
\<close>

fun run ::
  "('n, 'c, 'm, 'f) env \<Rightarrow> ('n, 'c, 'f) sim \<Rightarrow> message list \<Rightarrow> ('n, 'c, 'f) sim" where
  "run e st [] = st"
| "run e st (keys # rest) = run e (stateOf (handleBatch e st keys)) rest"

definition updates :: "(string \<times> payload) list \<Rightarrow> message" where
  "updates kvs = \<lparr>toUpdate = map (\<lambda>kv. (ascii (fst kv), snd kv)) kvs, toDelete = []\<rparr>"

definition deletes :: "string list \<Rightarrow> message" where
  "deletes ks = \<lparr>toUpdate = [], toDelete = map (\<lambda>k. Text (ascii k)) ks\<rparr>"

definition demo_configured :: "(jsnum, nat, demo_forms) sim" where
  "demo_configured =
     (initial [])\<lparr>args := [(ascii ''ns'', demo_args)],
                  forms := [(ascii ''webapp::simulator::args::ns'', Some (VString (ascii ''ARGS'')))]\<rparr>"

text \<open>
  The states of four short sessions, each starting with the prefixes configured:
  a camera, a trajectory or a robot has been created; an object has been created and
  then replaced by a model that declares another position key; a camera has been
  created, has started to decode a depth image and has then been replaced.
\<close>

definition camera_created :: "(jsnum, nat, demo_forms) sim" where
  "camera_created = run demo_env demo_configured [updates [(''cam::C'', Text (ascii ''C1''))]]"

definition trajectory_created :: "(jsnum, nat, demo_forms) sim" where
  "trajectory_created =
     run demo_env demo_configured [updates [(''traj::T'', Text (ascii ''M1''))]]"

definition robot_created :: "(jsnum, nat, demo_forms) sim" where
  "robot_created = run demo_env demo_configured [updates [(''rob::R'', Text (ascii ''M1''))]]"

definition object_replaced :: "(jsnum, nat, demo_forms) sim" where
  "object_replaced =
     run demo_env demo_configured
       [updates [(''obj::K'', Text (ascii ''M1''))], updates [(''obj::K'', Text (ascii ''M2''))]]"

definition camera_replaced :: "(jsnum, nat, demo_forms) sim" where
  "camera_replaced =
     run demo_env demo_configured
       [updates [(''cam::C'', Text (ascii ''C1''))], updates [(''d'', Binary [5, 6])],
        updates [(''cam::C'', Text (ascii ''C2''))]]"

section \<open>Properties of the wire decoder\<close>

subsection \<open>Decoding what the encoder wrote\<close>

lemma length_be_bytes [simp]: "length (be_bytes w n) = w"
  by (induction w arbitrary: n) auto

lemma be_nat_snoc: "be_nat (bs @ [b]) = 256 * be_nat bs + unat b"
  by (simp add: be_nat_def)

lemma be_nat_be_bytes: "be_nat (be_bytes w n) = n mod 256 ^ w"
proof (induction w arbitrary: n)
  case 0
  then show ?case by (simp add: be_nat_def)
next
  case (Suc w)
  have "unat (of_nat n :: byte) = n mod 256"
    by (simp add: unat_of_nat)
  then have "be_nat (be_bytes (Suc w) n) = 256 * (n div 256 mod 256 ^ w) + n mod 256"
    by (simp add: be_nat_snoc Suc.IH)
  also have "\<dots> = n mod (256 * 256 ^ w)"
    by (simp add: mod_mult2_eq)
  finally show ?case by simp
qed

lemma getUint_at:
  "length bs = w \<Longrightarrow> getUint w (pre @ bs @ post) (length pre) = Inr (be_nat bs)"
  by (simp add: getUint_def)

lemma getUint_be_bytes:
  "n < 256 ^ w \<Longrightarrow> getUint w (pre @ be_bytes w n @ post) (length pre) = Inr n"
  by (simp add: getUint_at be_nat_be_bytes)

lemma getUint8_at: "getUint8 (pre @ b # post) (length pre) = Inr (unat b)"
  using getUint_at [of "[b]" 1 pre post] by (simp add: getUint8_def be_nat_def)

lemma parseLength_encodeLength:
  assumes "n < 2 ^ 64"
  shows "parseLength (pre @ encodeLength n @ post) (length pre)
         = Inr (n, length pre + length (encodeLength n))"
proof -
  consider "n < 126" | "126 \<le> n" "n < 2 ^ 16" | "2 ^ 16 \<le> n" by linarith
  then show ?thesis
  proof cases
    case 1
    then have "unat (of_nat n :: byte) = n" by (simp add: unat_of_nat)
    with 1 show ?thesis
      using getUint8_at [of pre "of_nat n" post]
      by (simp add: parseLength_def encodeLength_def)
  next
    case 2
    have a: "getUint8 (pre @ 126 # be_bytes 2 n @ post) (length pre) = Inr 126"
      using getUint8_at [of pre 126 "be_bytes 2 n @ post"] by simp
    have "getUint 2 ((pre @ [126]) @ be_bytes 2 n @ post) (length (pre @ [126])) = Inr n"
      using 2 by (intro getUint_be_bytes) simp
    then have b: "getUint16 (pre @ 126 # be_bytes 2 n @ post) (length pre + 1) = Inr n"
      by (simp add: getUint16_def)
    from 2 a b show ?thesis
      by (simp add: parseLength_def encodeLength_def)
  next
    case 3
    have a: "getUint8 (pre @ 127 # be_bytes 8 n @ post) (length pre) = Inr 127"
      using getUint8_at [of pre 127 "be_bytes 8 n @ post"] by simp
    have "getUint 8 ((pre @ [127]) @ be_bytes 8 n @ post) (length (pre @ [127])) = Inr n"
      using assms by (intro getUint_be_bytes) simp
    then have b: "getBigUint64 (pre @ 127 # be_bytes 8 n @ post) (length pre + 1) = Inr n"
      by (simp add: getBigUint64_def)
    from 3 a b show ?thesis
      by (simp add: parseLength_def encodeLength_def)
  qed
qed


lemma tag_mask:
  "unat ((if reserved then 128 else 0) + typeTag p :: byte) AND 127 = unat (typeTag p)"
  by (cases p; cases reserved) (simp_all add: typeTag_def)

lemma parsePayload_encodePayload:
  assumes "length (payloadBytes p) < 2 ^ 64" and "fitsCall maxArguments p"
  shows "parsePayload maxArguments (pre @ encodePayload (r, p) @ post) (length pre)
         = Inr (Some (length pre + length (encodePayload (r, p)), p))"
proof -
  let ?t = "(if r then 128 else 0) + typeTag p :: byte"
  let ?n = "length (payloadBytes p)"
  let ?buf = "pre @ encodePayload (r, p) @ post"
  have buf: "?buf = (pre @ [?t]) @ encodeLength ?n @ (payloadBytes p @ post)"
    by (simp add: encodePayload_def)
  have t: "getUint8 ?buf (length pre) = Inr (unat ?t)"
    using getUint8_at [of pre ?t "encodeLength ?n @ payloadBytes p @ post"]
    by (simp add: encodePayload_def)
  have l: "parseLength ?buf (length pre + 1)
           = Inr (?n, length pre + 1 + length (encodeLength ?n))"
    using parseLength_encodeLength [OF assms(1), of "pre @ [?t]" "payloadBytes p @ post"]
    unfolding buf by simp
  have d: "take ?n (drop (length pre + 1 + length (encodeLength ?n)) ?buf) = payloadBytes p"
    unfolding buf by simp
  have len: "length pre + 1 + length (encodeLength ?n) + ?n \<le> length ?buf"
    unfolding buf by simp
  have e: "length (encodePayload (r, p)) = 1 + length (encodeLength ?n) + ?n"
    by (simp add: encodePayload_def)
  show ?thesis
  proof (cases p)
    case (Text s)
    then have "unat ?t AND 127 = 1" using tag_mask [of r p] by (simp add: typeTag_def)
    with Text t l d len e assms(2) show ?thesis
      by (simp add: parsePayload_def payloadBytes_def fitsCall_def del: append_assoc)
  next
    case (Binary b)
    then have "unat ?t AND 127 = 2" using tag_mask [of r p] by (simp add: typeTag_def)
    with Binary t l d len e show ?thesis
      by (simp add: parsePayload_def payloadBytes_def del: append_assoc)
  qed
qed


lemma length_encodeUpdates_Cons:
  "encodeUpdates (kv # ups) = encodePayload (fst kv) @ encodePayload (snd kv) @ encodeUpdates ups"
  by (cases kv) (simp add: encodeUpdates_def)

lemma parseUpdates_encodeUpdates:
  assumes "\<forall>kv \<in> set ups. length (payloadBytes (snd (fst kv))) < 2 ^ 64
                        \<and> length (payloadBytes (snd (snd kv))) < 2 ^ 64"
    and "\<forall>kv \<in> set ups. fitsCall maxArguments (snd (fst kv))
                        \<and> fitsCall maxArguments (snd (snd kv))"
  shows "parseUpdates maxArguments (pre @ encodeUpdates ups @ post) (length ups) (length pre) obj
         = Inr (length pre + length (encodeUpdates ups), foldl updateStep obj ups)"
  using assms
proof (induction ups arbitrary: pre obj)
  case Nil
  then show ?case by (simp add: encodeUpdates_def)
next
  case (Cons kv ups)
  obtain rk k rv v where kv: "kv = ((rk, k), (rv, v))" by (metis surj_pair)
  let ?ek = "encodePayload (rk, k)"
  let ?ev = "encodePayload (rv, v)"
  let ?buf = "pre @ encodeUpdates (kv # ups) @ post"
  from Cons.prems kv have lk: "length (payloadBytes k) < 2 ^ 64"
    and lv: "length (payloadBytes v) < 2 ^ 64"
    and fk: "fitsCall maxArguments k" and fv: "fitsCall maxArguments v" by auto
  have b1: "?buf = pre @ ?ek @ (?ev @ encodeUpdates ups @ post)"
    by (simp add: length_encodeUpdates_Cons kv)
  have b2: "?buf = (pre @ ?ek) @ ?ev @ (encodeUpdates ups @ post)"
    by (simp add: length_encodeUpdates_Cons kv)
  have b3: "?buf = (pre @ ?ek @ ?ev) @ encodeUpdates ups @ post"
    by (simp add: length_encodeUpdates_Cons kv)
  have p1: "parsePayload maxArguments ?buf (length pre) = Inr (Some (length pre + length ?ek, k))"
    unfolding b1 by (rule parsePayload_encodePayload [OF lk fk])
  have p2: "parsePayload maxArguments ?buf (length pre + length ?ek)
            = Inr (Some (length pre + length ?ek + length ?ev, v))"
    using parsePayload_encodePayload [OF lv fv, of "pre @ ?ek" rv "encodeUpdates ups @ post"]
    unfolding b2 by simp
  have ih: "parseUpdates maxArguments ?buf (length ups) (length pre + length ?ek + length ?ev)
              (updateStep obj kv)
            = Inr (length pre + length ?ek + length ?ev + length (encodeUpdates ups),
                   foldl updateStep (updateStep obj kv) ups)"
    using Cons.IH [of "pre @ ?ek @ ?ev" "updateStep obj kv"] Cons.prems
    unfolding b3 by (simp add: add.assoc)
  have "parseUpdates maxArguments ?buf (Suc (length ups)) (length pre) obj
        = parseUpdates maxArguments ?buf (length ups) (length pre + length ?ek + length ?ev)
            (updateStep obj kv)"
    using p1 p2 by (simp add: updateStep_def kv)
  with ih show ?case
    by (simp add: length_encodeUpdates_Cons kv add.assoc)
qed

lemma parseDeletes_encodeDeletes:
  assumes "\<forall>d \<in> set dels. length (payloadBytes (snd d)) < 2 ^ 64"
    and "\<forall>d \<in> set dels. fitsCall maxArguments (snd d)"
  shows "parseDeletes maxArguments (pre @ encodeDeletes dels @ post) (length dels) (length pre) acc
         = Inr (length pre + length (encodeDeletes dels), acc @ map snd dels)"
  using assms
proof (induction dels arbitrary: pre acc)
  case Nil
  then show ?case by (simp add: encodeDeletes_def)
next
  case (Cons d dels)
  obtain r k where d: "d = (r, k)" by (cases d)
  let ?ek = "encodePayload (r, k)"
  let ?buf = "pre @ encodeDeletes (d # dels) @ post"
  from Cons.prems d have lk: "length (payloadBytes k) < 2 ^ 64"
    and fk: "fitsCall maxArguments k" by auto
  have b1: "?buf = pre @ ?ek @ (encodeDeletes dels @ post)"
    by (simp add: encodeDeletes_def d)
  have b2: "?buf = (pre @ ?ek) @ encodeDeletes dels @ post"
    by (simp add: encodeDeletes_def d)
  have p1: "parsePayload maxArguments ?buf (length pre) = Inr (Some (length pre + length ?ek, k))"
    unfolding b1 by (rule parsePayload_encodePayload [OF lk fk])
  have ih: "parseDeletes maxArguments ?buf (length dels) (length pre + length ?ek) (acc @ [k])
            = Inr (length pre + length ?ek + length (encodeDeletes dels),
                   (acc @ [k]) @ map snd dels)"
    using Cons.IH [of "pre @ ?ek" "acc @ [k]"] Cons.prems
    unfolding b2 by simp
  have "parseDeletes maxArguments ?buf (Suc (length dels)) (length pre) acc
        = parseDeletes maxArguments ?buf (length dels) (length pre + length ?ek) (acc @ [k])"
    by (simp add: p1)
  with ih show ?case
    by (simp add: encodeDeletes_def d add.assoc)
qed


lemma parseMessageIdx_encodeMessage:
  assumes "length ups < 2 ^ 32" and "length dels < 2 ^ 32"
    and "\<forall>kv \<in> set ups. length (payloadBytes (snd (fst kv))) < 2 ^ 64
                        \<and> length (payloadBytes (snd (snd kv))) < 2 ^ 64"
    and "\<forall>d \<in> set dels. length (payloadBytes (snd d)) < 2 ^ 64"
    and "\<forall>kv \<in> set ups. fitsCall maxArguments (snd (fst kv))
                        \<and> fitsCall maxArguments (snd (snd kv))"
    and "\<forall>d \<in> set dels. fitsCall maxArguments (snd d)"
  shows "parseMessageIdx maxArguments (encodeMessage ups dels)
         = Inr (length (encodeMessage ups dels),
                \<lparr>toUpdate = foldl updateStep [] ups, toDelete = map snd dels\<rparr>)"
proof -
  let ?c1 = "be_bytes 4 (length ups)"
  let ?c2 = "be_bytes 4 (length dels)"
  let ?msg = "encodeMessage ups dels"
  have n1: "getUint32 ?msg 0 = Inr (length ups)"
    using getUint_be_bytes [of "length ups" 4 "[]" "encodeUpdates ups @ ?c2 @ encodeDeletes dels"]
      assms(1)
    by (simp add: getUint32_def encodeMessage_def)
  have u: "parseUpdates maxArguments ?msg (length ups) 4 []
           = Inr (4 + length (encodeUpdates ups), foldl updateStep [] ups)"
    using parseUpdates_encodeUpdates [OF assms(3,5), of ?c1 "?c2 @ encodeDeletes dels" "[]"]
    by (simp add: encodeMessage_def)
  have n2: "getUint32 ?msg (4 + length (encodeUpdates ups)) = Inr (length dels)"
    using getUint_be_bytes [of "length dels" 4 "?c1 @ encodeUpdates ups" "encodeDeletes dels"]
      assms(2)
    by (simp add: getUint32_def encodeMessage_def)
  have d: "parseDeletes maxArguments ?msg (length dels) (4 + length (encodeUpdates ups) + 4) []
           = Inr (4 + length (encodeUpdates ups) + 4 + length (encodeDeletes dels), map snd dels)"
    using parseDeletes_encodeDeletes [OF assms(4,6), of "?c1 @ encodeUpdates ups @ ?c2" "[]" "[]"]
    by (simp add: encodeMessage_def add.assoc)
  have len: "length ?msg = 4 + length (encodeUpdates ups) + 4 + length (encodeDeletes dels)"
    by (simp add: encodeMessage_def)
  show ?thesis
    using d by (simp add: parseMessageIdx_def n1 u n2 len)
qed

lemma js_set_plain:
  "plainKey k \<Longrightarrow> k \<notin> set (map fst obj) \<Longrightarrow> js_set obj k v = obj @ [(k, v)]"
  by (simp add: js_set_def plainKey_def)

lemma foldl_updateStep_plain:
  assumes "\<forall>kv \<in> set ups. isText (snd (fst kv)) \<and> plainKey (payloadBytes (snd (fst kv)))"
    and "distinct (map fst obj @ map (\<lambda>kv. payloadBytes (snd (fst kv))) ups)"
  shows "foldl updateStep obj ups = obj @ map decodedUpdate ups"
  using assms
proof (induction ups arbitrary: obj)
  case Nil
  then show ?case by simp
next
  case (Cons kv ups)
  let ?k = "payloadBytes (snd (fst kv))"
  from Cons.prems(1) have t: "isText (snd (fst kv))" and pk: "plainKey ?k" by auto
  from t have key: "toPropertyKey (snd (fst kv)) = ?k"
    by (cases "snd (fst kv)") (simp_all add: isText_def toPropertyKey_def payloadBytes_def)
  from Cons.prems(2) have fresh: "?k \<notin> set (map fst obj)" by auto
  have step: "updateStep obj kv = obj @ [decodedUpdate kv]"
    using js_set_plain [OF pk fresh] by (simp add: updateStep_def key decodedUpdate_def)
  have "distinct (map fst (obj @ [decodedUpdate kv]) @ map (\<lambda>kv. payloadBytes (snd (fst kv))) ups)"
    using Cons.prems(2) by (simp add: decodedUpdate_def)
  with Cons.IH [of "obj @ [decodedUpdate kv]"] Cons.prems(1) step show ?case by simp
qed

lemmas decoder_defs =
  parseMessage_def parseMessageIdx_def getUint32_def getUint16_def getBigUint64_def
  getUint8_def getUint_def be_nat_def parsePayload_def parseLength_def

lemmas encoder_defs =
  encodeMessage_def encodeUpdates_def encodeDeletes_def encodePayload_def encodeLength_def
  typeTag_def payloadBytes_def

lemma parseUpdates_numeral:
  "parseUpdates maxArguments buffer (numeral k) idx obj = parseUpdates maxArguments buffer (Suc (pred_numeral k)) idx obj"
  by (simp add: numeral_eq_Suc)

lemma parseDeletes_numeral:
  "parseDeletes maxArguments buffer (numeral k) idx acc = parseDeletes maxArguments buffer (Suc (pred_numeral k)) idx acc"
  by (simp add: numeral_eq_Suc)

lemma be_bytes_numeral:
  "be_bytes (numeral k) n = be_bytes (pred_numeral k) (n div 256) @ [of_nat n]"
  by (simp only: numeral_eq_Suc [of k] be_bytes.simps)

lemmas loop_numerals = parseUpdates_numeral parseDeletes_numeral be_bytes_numeral


subsection \<open>Decoding a truncated buffer\<close>

lemma take_drop_take:
  "i + w \<le> n \<Longrightarrow> take w (drop i (take n xs)) = take w (drop i xs)"
  by (simp add: drop_take min_def)

lemma getUint_take:
  "n \<le> length full \<Longrightarrow>
   getUint w (take n full) idx = (if idx + w \<le> n then getUint w full idx else Inl RangeError)"
  by (simp add: getUint_def take_drop_take)

lemma parseLength_take:
  assumes "n \<le> length full" and "parseLength full idx = Inr (l, i')"
  shows "parseLength (take n full) idx = (if i' \<le> n then Inr (l, i') else Inl RangeError)"
  using assms(2)
  by (auto simp: parseLength_def getUint8_def getUint16_def getBigUint64_def
      getUint_take [OF assms(1)] split: sum.splits if_splits)

lemma parseLength_mono: "parseLength buffer idx = Inr (l, i') \<Longrightarrow> idx < i'"
  by (auto simp: parseLength_def split: sum.splits if_splits)

lemma parsePayload_mono: "parsePayload maxArguments buffer idx = Inr (Some (i', p)) \<Longrightarrow> idx < i'"
  by (auto simp: parsePayload_def Let_def split: sum.splits if_splits dest!: parseLength_mono)

lemma parsePayload_past_end:
  "length buffer \<le> idx \<Longrightarrow> parsePayload maxArguments buffer idx = Inl RangeError"
  by (simp add: parsePayload_def getUint8_def getUint_def)

lemma parsePayload_take_same:
  assumes "n \<le> length full" and "parsePayload maxArguments full idx = Inr (Some (i', p))" and "i' \<le> n"
  shows "parsePayload maxArguments (take n full) idx = Inr (Some (i', p))"
proof -
  from assms(2) obtain t l i3 where
    t: "getUint8 full idx = Inr t" and l: "parseLength full (idx + 1) = Inr (l, i3)"
    by (auto simp: parsePayload_def Let_def split: sum.splits)
  from assms(2) t l have i': "i' = i3 + l"
    by (auto simp: parsePayload_def Let_def split: if_splits)
  from parseLength_mono [OF l] i' assms(3) have "idx + 1 \<le> n" and i3: "i3 \<le> n" by auto
  then have t': "getUint8 (take n full) idx = Inr t"
    using t by (simp add: getUint8_def getUint_take [OF assms(1)])
  have l': "parseLength (take n full) (idx + 1) = Inr (l, i3)"
    using parseLength_take [OF assms(1) l] i3 by simp
  have d: "take l (drop i3 (take n full)) = take l (drop i3 full)"
    using i' assms(3) by (simp add: take_drop_take)
  from assms(2) t l i' assms(1,3) t' l' d show ?thesis
    by (auto simp: parsePayload_def Let_def split: if_splits)
qed

lemma parsePayload_take_cut:
  assumes "n \<le> length full" and "parsePayload maxArguments full idx = Inr (Some (i', p))"
    and "n < i'" and "i' \<le> length full"
  shows "parsePayload maxArguments (take n full) idx = Inl RangeError
         \<or> (isBinary p \<and> i' - length (payloadBytes p) \<le> n
            \<and> (\<exists>b. parsePayload maxArguments (take n full) idx = Inr (Some (i', Binary b))))"
proof -
  from assms(2) obtain t l i3 where
    t: "getUint8 full idx = Inr t" and l: "parseLength full (idx + 1) = Inr (l, i3)"
    by (auto simp: parsePayload_def Let_def split: sum.splits)
  from assms(2) t l have i': "i' = i3 + l"
    by (auto simp: parsePayload_def Let_def split: if_splits)
  from assms(2) t l have p: "payloadBytes p = take l (drop i3 full)"
    by (auto simp: parsePayload_def Let_def payloadBytes_def split: if_splits)
  from i' assms(4) have lp: "length (payloadBytes p) = l" by (simp add: p)
  show ?thesis
  proof (cases "i3 \<le> n")
    case False
    then have "parseLength (take n full) (idx + 1) = Inl RangeError"
      using parseLength_take [OF assms(1) l] by simp
    then show ?thesis
      by (auto simp: parsePayload_def Let_def getUint8_def getUint_def split: sum.splits)
  next
    case True
    with parseLength_mono [OF l] have "idx + 1 \<le> n" by simp
    then have t': "getUint8 (take n full) idx = Inr t"
      using t by (simp add: getUint8_def getUint_take [OF assms(1)])
    have l': "parseLength (take n full) (idx + 1) = Inr (l, i3)"
      using parseLength_take [OF assms(1) l] True by simp
    have start: "i' - length (payloadBytes p) \<le> n" using True i' lp by simp
    from assms(2) t l i' assms(1,3) t' l' start show ?thesis
      by (auto simp: parsePayload_def Let_def isBinary_def split: if_splits)
  qed
qed


lemma parseUpdates_mono:
  "parseUpdates maxArguments buffer k idx obj = Inr (e, obj') \<Longrightarrow> idx \<le> e"
proof (induction k arbitrary: idx obj)
  case 0
  then show ?case by simp
next
  case (Suc k)
  from Suc.prems obtain i1 key i2 val where
    p1: "parsePayload maxArguments buffer idx = Inr (Some (i1, key))" and
    p2: "parsePayload maxArguments buffer i1 = Inr (Some (i2, val))" and
    r: "parseUpdates maxArguments buffer k i2 (js_set obj (toPropertyKey key) val) = Inr (e, obj')"
    by (auto split: sum.splits option.splits)
  from parsePayload_mono [OF p1] parsePayload_mono [OF p2] Suc.IH [OF r] show ?case by simp
qed

lemma parseDeletes_mono:
  "parseDeletes maxArguments buffer k idx acc = Inr (e, ds) \<Longrightarrow> idx \<le> e"
proof (induction k arbitrary: idx acc)
  case 0
  then show ?case by simp
next
  case (Suc k)
  from Suc.prems obtain i1 key where
    p1: "parsePayload maxArguments buffer idx = Inr (Some (i1, key))" and
    r: "parseDeletes maxArguments buffer k i1 (acc @ [key]) = Inr (e, ds)"
    by (auto split: sum.splits option.splits)
  from parsePayload_mono [OF p1] Suc.IH [OF r] show ?case by simp
qed

lemma parseUpdates_take:
  assumes "n \<le> length full" and "parseUpdates maxArguments full k idx obj = Inr (e, obj')"
    and "idx \<le> n" and "e \<le> length full"
  shows "(e \<le> n \<longrightarrow> parseUpdates maxArguments (take n full) k idx obj = Inr (e, obj')) \<and>
         (n < e \<longrightarrow> parseUpdates maxArguments (take n full) k idx obj = Inl RangeError
                  \<or> (\<exists>obj''. parseUpdates maxArguments (take n full) k idx obj = Inr (e, obj'')))"
  using assms(2,3)
proof (induction k arbitrary: idx obj)
  case 0
  then show ?case by auto
next
  case (Suc k)
  let ?buf = "take n full"
  from Suc.prems(1) obtain i1 key i2 val where
    p1: "parsePayload maxArguments full idx = Inr (Some (i1, key))" and
    p2: "parsePayload maxArguments full i1 = Inr (Some (i2, val))" and
    r: "parseUpdates maxArguments full k i2 (js_set obj (toPropertyKey key) val) = Inr (e, obj')"
    by (auto split: sum.splits option.splits)
  have len: "length ?buf = n" using assms(1) by simp
  have past: "\<And>i. n < i \<Longrightarrow> parsePayload maxArguments ?buf i = Inl RangeError"
    by (rule parsePayload_past_end) (simp add: len)
  have i2e: "i2 \<le> e" by (rule parseUpdates_mono [OF r])
  have i12: "i1 < i2" by (rule parsePayload_mono [OF p2])
  from i2e i12 assms(4) have i2f: "i2 \<le> length full" and i1f: "i1 \<le> length full"
    by simp_all
  consider (whole) "i2 \<le> n" | (val) "i1 \<le> n" "n < i2" | (key) "n < i1" by linarith
  then show ?case
  proof cases
    case whole
    with i12 have "i1 \<le> n" by simp
    then have q1: "parsePayload maxArguments ?buf idx = Inr (Some (i1, key))"
      by (rule parsePayload_take_same [OF assms(1) p1])
    have q2: "parsePayload maxArguments ?buf i1 = Inr (Some (i2, val))"
      by (rule parsePayload_take_same [OF assms(1) p2 whole])
    have "parseUpdates maxArguments ?buf (Suc k) idx obj
          = parseUpdates maxArguments ?buf k i2 (js_set obj (toPropertyKey key) val)"
      by (simp add: q1 q2)
    with Suc.IH [OF r whole] show ?thesis by simp
  next
    case val
    then have q1: "parsePayload maxArguments ?buf idx = Inr (Some (i1, key))"
      using parsePayload_take_same [OF assms(1) p1] by simp
    from val i2e have ne: "n < e" by simp
    from parsePayload_take_cut [OF assms(1) p2 val(2) i2f]
    have "parseUpdates maxArguments ?buf (Suc k) idx obj = Inl RangeError
          \<or> (\<exists>obj''. parseUpdates maxArguments ?buf (Suc k) idx obj = Inr (e, obj''))"
    proof
      assume "parsePayload maxArguments ?buf i1 = Inl RangeError"
      then show ?thesis by (simp add: q1)
    next
      assume "isBinary val \<and> i2 - length (payloadBytes val) \<le> n
              \<and> (\<exists>b. parsePayload maxArguments ?buf i1 = Inr (Some (i2, Binary b)))"
      then obtain b where q2: "parsePayload maxArguments ?buf i1 = Inr (Some (i2, Binary b))" by blast
      show ?thesis
      proof (cases k)
        case 0
        with r have "e = i2" by simp
        with 0 show ?thesis by (simp add: q1 q2)
      next
        case (Suc k')
        then show ?thesis by (simp add: q1 q2 past [OF val(2)])
      qed
    qed
    with ne show ?thesis by simp
  next
    case key
    from key i12 i2e have ne: "n < e" by simp
    from parsePayload_take_cut [OF assms(1) p1 key i1f]
    have "parseUpdates maxArguments ?buf (Suc k) idx obj = Inl RangeError"
    proof
      assume "parsePayload maxArguments ?buf idx = Inl RangeError"
      then show ?thesis by simp
    next
      assume "isBinary key \<and> i1 - length (payloadBytes key) \<le> n
              \<and> (\<exists>b. parsePayload maxArguments ?buf idx = Inr (Some (i1, Binary b)))"
      then obtain b where q1: "parsePayload maxArguments ?buf idx = Inr (Some (i1, Binary b))" by blast
      then show ?thesis by (simp add: past [OF key])
    qed
    with ne show ?thesis by simp
  qed
qed

lemma parseDeletes_take:
  assumes "n \<le> length full" and "parseDeletes maxArguments full k idx acc = Inr (e, ds)"
    and "idx \<le> n" and "e \<le> length full"
  shows "(e \<le> n \<longrightarrow> parseDeletes maxArguments (take n full) k idx acc = Inr (e, ds)) \<and>
         (n < e \<longrightarrow> parseDeletes maxArguments (take n full) k idx acc = Inl RangeError
                  \<or> (ds \<noteq> [] \<and> isBinary (last ds)
                     \<and> e - length (payloadBytes (last ds)) \<le> n))"
  using assms(2,3)
proof (induction k arbitrary: idx acc)
  case 0
  then show ?case by auto
next
  case (Suc k)
  let ?buf = "take n full"
  from Suc.prems(1) obtain i1 key where
    p1: "parsePayload maxArguments full idx = Inr (Some (i1, key))" and
    r: "parseDeletes maxArguments full k i1 (acc @ [key]) = Inr (e, ds)"
    by (auto split: sum.splits option.splits)
  have len: "length ?buf = n" using assms(1) by simp
  have past: "\<And>i. n < i \<Longrightarrow> parsePayload maxArguments ?buf i = Inl RangeError"
    by (rule parsePayload_past_end) (simp add: len)
  have i1e: "i1 \<le> e" by (rule parseDeletes_mono [OF r])
  with assms(4) have i1f: "i1 \<le> length full" by simp
  show ?case
  proof (cases "i1 \<le> n")
    case True
    then have q1: "parsePayload maxArguments ?buf idx = Inr (Some (i1, key))"
      by (rule parsePayload_take_same [OF assms(1) p1])
    have "parseDeletes maxArguments ?buf (Suc k) idx acc
          = parseDeletes maxArguments ?buf k i1 (acc @ [key])"
      by (simp add: q1)
    with Suc.IH [OF r True] show ?thesis by simp
  next
    case False
    then have cut: "n < i1" by simp
    with i1e have ne: "n < e" by simp
    from parsePayload_take_cut [OF assms(1) p1 cut i1f]
    have "parseDeletes maxArguments ?buf (Suc k) idx acc = Inl RangeError
          \<or> (ds \<noteq> [] \<and> isBinary (last ds) \<and> e - length (payloadBytes (last ds)) \<le> n)"
    proof
      assume "parsePayload maxArguments ?buf idx = Inl RangeError"
      then show ?thesis by simp
    next
      assume a: "isBinary key \<and> i1 - length (payloadBytes key) \<le> n
                 \<and> (\<exists>b. parsePayload maxArguments ?buf idx = Inr (Some (i1, Binary b)))"
      then obtain b where q1: "parsePayload maxArguments ?buf idx = Inr (Some (i1, Binary b))"
        by blast
      show ?thesis
      proof (cases k)
        case 0
        with r have "ds = acc @ [key]" and "e = i1" by simp_all
        with a show ?thesis by simp
      next
        case (Suc k')
        then show ?thesis by (simp add: q1 past [OF cut])
      qed
    qed
    with ne show ?thesis by simp
  qed
qed

subsection \<open>Round trip\<close>

text \<open>
  Claim C3, as amended. A message written by the encoder decodes to the update pairs in
  their encoded order and to the list of delete keys, provided that the counts fit 32 bits,
  every payload is shorter than \<open>2^53\<close> bytes, every text payload has at most
  \<open>maxArguments\<close> bytes (the number of arguments the engine accepts in a call:
  \<^verbatim>\<open>String.fromCharCode.apply\<close> passes one for each byte and throws beyond it), and the update
  keys are text, pairwise distinct and plain (neither \<^verbatim>\<open>__proto__\<close> nor an array index).
  The reserved bit of a type tag has no influence on the result. Delete keys and update
  values may be text or binary.
\<close>

theorem parseMessage_encodeMessage:
  assumes "length ups < 2 ^ 32" and "length dels < 2 ^ 32"
    and "\<forall>kv \<in> set ups. length (payloadBytes (snd (fst kv))) < 2 ^ 53
                        \<and> length (payloadBytes (snd (snd kv))) < 2 ^ 53"
    and "\<forall>d \<in> set dels. length (payloadBytes (snd d)) < 2 ^ 53"
    and "\<forall>kv \<in> set ups. fitsCall maxArguments (snd (fst kv))
                        \<and> fitsCall maxArguments (snd (snd kv))"
    and "\<forall>d \<in> set dels. fitsCall maxArguments (snd d)"
    and "\<forall>kv \<in> set ups. isText (snd (fst kv)) \<and> plainKey (payloadBytes (snd (fst kv)))"
    and "distinct (map (\<lambda>kv. payloadBytes (snd (fst kv))) ups)"
  shows "parseMessage maxArguments (encodeMessage ups dels)
         = Inr \<lparr>toUpdate = map decodedUpdate ups, toDelete = map snd dels\<rparr>"
proof -
  have "(2::nat) ^ 53 \<le> 2 ^ 64" by simp
  with assms(3) have a3: "\<forall>kv \<in> set ups. length (payloadBytes (snd (fst kv))) < 2 ^ 64
                        \<and> length (payloadBytes (snd (snd kv))) < 2 ^ 64"
    by (meson less_le_trans)
  from assms(4) \<open>(2::nat) ^ 53 \<le> 2 ^ 64\<close>
  have a4: "\<forall>d \<in> set dels. length (payloadBytes (snd d)) < 2 ^ 64"
    by (meson less_le_trans)
  have "foldl updateStep [] ups = [] @ map decodedUpdate ups"
    by (rule foldl_updateStep_plain) (use assms(7,8) in simp_all)
  with parseMessageIdx_encodeMessage [OF assms(1,2) a3 a4 assms(5,6)] show ?thesis
    by (simp add: parseMessage_def)
qed


theorem parseMessage_encodeMessage_witness:
  "parseMessage 65536 (encodeMessage [((False, Text (ascii ''a'')), (True, Binary [1, 2]))]
                                     [(False, Text (ascii ''b''))])
   = Inr \<lparr>toUpdate = [(ascii ''a'', Binary [1, 2])], toDelete = [Text (ascii ''b'')]\<rparr>"
  using parseMessage_encodeMessage
    [of "[((False, Text (ascii ''a'')), (True, Binary [1, 2]))]" "[(False, Text (ascii ''b''))]"
        65536]
  by (simp add: payloadBytes_def isText_def plainKey_def isArrayIndex_def isDigit_def ascii_def
      decodedUpdate_def fitsCall_def)

text \<open>
  Claim C3 as stated fails on keys that are array indices: the object that collects the
  updates enumerates such keys in ascending numeric order before all others. The message
  below encodes the pairs \<^verbatim>\<open>("2", "x")\<close>, \<^verbatim>\<open>("1", "y")\<close> in this order and decodes to
  \<^verbatim>\<open>("1", "y")\<close>, \<^verbatim>\<open>("2", "x")\<close>, here on an engine that accepts 65536 arguments.
\<close>

theorem parseMessage_reorders_index_keys:
  "encodeMessage [((False, Text (ascii ''2'')), (False, Text (ascii ''x''))),
                  ((False, Text (ascii ''1'')), (False, Text (ascii ''y'')))] []
   = [0, 0, 0, 2, 1, 1, 50, 1, 1, 120, 1, 1, 49, 1, 1, 121, 0, 0, 0, 0]
   \<and> parseMessage 65536 [0, 0, 0, 2, 1, 1, 50, 1, 1, 120, 1, 1, 49, 1, 1, 121, 0, 0, 0, 0]
     = Inr \<lparr>toUpdate = [(ascii ''1'', Text (ascii ''y'')), (ascii ''2'', Text (ascii ''x''))],
            toDelete = []\<rparr>"
proof
  show "encodeMessage [((False, Text (ascii ''2'')), (False, Text (ascii ''x''))),
                  ((False, Text (ascii ''1'')), (False, Text (ascii ''y'')))] []
   = [0, 0, 0, 2, 1, 1, 50, 1, 1, 120, 1, 1, 49, 1, 1, 121, 0, 0, 0, 0]"
    by (simp add: encoder_defs ascii_def loop_numerals)
  show "parseMessage 65536 [0, 0, 0, 2, 1, 1, 50, 1, 1, 120, 1, 1, 49, 1, 1, 121, 0, 0, 0, 0]
     = Inr \<lparr>toUpdate = [(ascii ''1'', Text (ascii ''y'')), (ascii ''2'', Text (ascii ''x''))],
            toDelete = []\<rparr>"
    by (simp add: decoder_defs ascii_def js_set_def toPropertyKey_def
      isArrayIndex_def isDigit_def digitsValue_def loop_numerals)
qed


subsection \<open>Truncation\<close>

text \<open>
  What the decoder does with a proper prefix of a buffer that is one whole message (it
  decodes with the decoder's index ending exactly at the end of the buffer). It throws
  \<^verbatim>\<open>RangeError\<close> unless the last delete key is binary and the cut falls inside the bytes
  of that key, at or after their start.
\<close>

lemma parseMessage_take:
  assumes "parseMessageIdx maxArguments full = Inr (length full, m)"
    and "n < length full"
    and "toDelete m = [] \<or> isText (last (toDelete m))
         \<or> n < length full - length (payloadBytes (last (toDelete m)))"
  shows "parseMessage maxArguments (take n full) = Inl RangeError"
proof -
  let ?buf = "take n full"
  from assms(2) have nle: "n \<le> length full" by simp
  from assms(1) obtain numUpdates eu obj numDeletes ds where
    n1: "getUint32 full 0 = Inr numUpdates" and
    u: "parseUpdates maxArguments full numUpdates 4 [] = Inr (eu, obj)" and
    n2: "getUint32 full eu = Inr numDeletes" and
    d: "parseDeletes maxArguments full numDeletes (eu + 4) [] = Inr (length full, ds)" and
    m: "toDelete m = ds"
    by (auto simp: parseMessageIdx_def split: sum.splits)
  from parseDeletes_mono [OF d] have euf: "eu \<le> length full" by simp
  have g: "\<And>i. getUint32 ?buf i = (if i + 4 \<le> n then getUint32 full i else Inl RangeError)"
    by (simp add: getUint32_def getUint_take [OF nle])
  show ?thesis
  proof (cases "4 \<le> n")
    case False
    then show ?thesis by (simp add: parseMessage_def parseMessageIdx_def g)
  next
    case four: True
    then have m1: "getUint32 ?buf 0 = Inr numUpdates" by (simp add: g n1)
    note U = parseUpdates_take [OF nle u four euf]
    show ?thesis
    proof (cases "eu + 4 \<le> n")
      case False
      have "parseUpdates maxArguments ?buf numUpdates 4 [] = Inl RangeError
            \<or> (\<exists>obj''. parseUpdates maxArguments ?buf numUpdates 4 [] = Inr (eu, obj''))"
        using U by (cases "eu \<le> n") auto
      then show ?thesis
        using False by (auto simp: parseMessage_def parseMessageIdx_def n1 g)
    next
      case True
      then have u': "parseUpdates maxArguments ?buf numUpdates 4 [] = Inr (eu, obj)"
        using U by simp
      have m2: "getUint32 ?buf eu = Inr numDeletes" using True by (simp add: g n2)
      from parseDeletes_take [OF nle d True] assms(2)
      have "parseDeletes maxArguments ?buf numDeletes (eu + 4) [] = Inl RangeError
            \<or> (ds \<noteq> [] \<and> isBinary (last ds)
               \<and> length full - length (payloadBytes (last ds)) \<le> n)" by simp
      moreover have "\<not> (ds \<noteq> [] \<and> isBinary (last ds)
                        \<and> length full - length (payloadBytes (last ds)) \<le> n)"
        using assms(3) m by (cases "last ds") (auto simp: isText_def isBinary_def)
      ultimately have "parseDeletes maxArguments ?buf numDeletes (eu + 4) [] = Inl RangeError"
        by blast
      then show ?thesis
        by (simp add: parseMessage_def parseMessageIdx_def m1 u' m2)
    qed
  qed
qed

lemma parsePayload_data_start:
  assumes "parsePayload maxArguments full idx = Inr (Some (i', p))" and "i' \<le> length full"
  shows "idx < i' - length (payloadBytes p)"
proof -
  from assms(1) obtain t l i3 where
    t: "getUint8 full idx = Inr t" and l: "parseLength full (idx + 1) = Inr (l, i3)"
    by (auto simp: parsePayload_def Let_def split: sum.splits)
  from assms(1) t l have i': "i' = i3 + l"
    by (auto simp: parsePayload_def Let_def split: if_splits)
  from assms(1) t l have p: "payloadBytes p = take l (drop i3 full)"
    by (auto simp: parsePayload_def Let_def payloadBytes_def split: if_splits)
  from i' assms(2) have "length (payloadBytes p) = l" by (simp add: p)
  with i' parseLength_mono [OF l] show ?thesis by simp
qed

lemma parseDeletes_last:
  assumes "parseDeletes maxArguments full (Suc k) idx acc = Inr (e, ds)" and "e \<le> length full"
  shows "ds \<noteq> [] \<and> idx < e - length (payloadBytes (last ds))"
  using assms(1)
proof (induction k arbitrary: idx acc)
  case 0
  then obtain i1 key where
    p1: "parsePayload maxArguments full idx = Inr (Some (i1, key))" and
    r: "e = i1" "ds = acc @ [key]"
    by (auto split: sum.splits option.splits)
  from parsePayload_data_start [OF p1] assms(2) r show ?case by simp
next
  case (Suc k)
  from Suc.prems obtain i1 key where
    p1: "parsePayload maxArguments full idx = Inr (Some (i1, key))" and
    r: "parseDeletes maxArguments full (Suc k) i1 (acc @ [key]) = Inr (e, ds)"
    by (auto split: sum.splits option.splits)
  from Suc.IH [OF r] parsePayload_mono [OF p1] show ?case by simp
qed

lemma parsePayload_take_binary:
  assumes "n \<le> length full"
    and "parsePayload maxArguments full idx = Inr (Some (i', Binary b))"
    and "i' \<le> length full" and "i' - length b \<le> n" and "n < i'"
  shows "parsePayload maxArguments (take n full) idx
         = Inr (Some (i', Binary (take (n - (i' - length b)) b)))"
proof -
  from assms(2) obtain t l i3 where
    t: "getUint8 full idx = Inr t" and l: "parseLength full (idx + 1) = Inr (l, i3)"
    by (auto simp: parsePayload_def Let_def split: sum.splits)
  from assms(2) t l have i': "i' = i3 + l" and b: "b = take l (drop i3 full)"
    and ty: "t AND 127 = 2"
    by (auto simp: parsePayload_def Let_def split: if_splits)
  from i' assms(3) have lb: "length b = l" by (simp add: b)
  with i' assms(4) have i3: "i3 \<le> n" by simp
  with parseLength_mono [OF l] have "idx + 1 \<le> n" by simp
  then have t': "getUint8 (take n full) idx = Inr t"
    using t by (simp add: getUint8_def getUint_take [OF assms(1)])
  have l': "parseLength (take n full) (idx + 1) = Inr (l, i3)"
    using parseLength_take [OF assms(1) l] i3 by simp
  have "take l (drop i3 (take n full)) = take (n - i3) (take l (drop i3 full))"
    using assms(5) i' by (simp add: drop_take min_def)
  with t' l' ty i' lb b show ?thesis
    by (simp add: parsePayload_def Let_def)
qed

lemma parseDeletes_take_binary:
  assumes "n \<le> length full"
    and "parseDeletes maxArguments full (Suc k) idx acc = Inr (e, ds)"
    and "e \<le> length full" and "last ds = Binary b"
    and "idx \<le> n" and "e - length b \<le> n" and "n < e"
  shows "parseDeletes maxArguments (take n full) (Suc k) idx acc
         = Inr (e, butlast ds @ [Binary (take (n - (e - length b)) b)])"
  using assms(2,5)
proof (induction k arbitrary: idx acc)
  case 0
  then obtain i1 key where
    p1: "parsePayload maxArguments full idx = Inr (Some (i1, key))" and
    r: "e = i1" "ds = acc @ [key]"
    by (auto split: sum.splits option.splits)
  from r assms(4) have key: "key = Binary b" by simp
  from parsePayload_take_binary [OF assms(1) p1 [unfolded key]] assms(3,6,7) r(1)
  have "parsePayload maxArguments (take n full) idx
        = Inr (Some (e, Binary (take (n - (e - length b)) b)))" by simp
  with r show ?case by simp
next
  case (Suc k)
  from Suc.prems(1) obtain i1 key where
    p1: "parsePayload maxArguments full idx = Inr (Some (i1, key))" and
    r: "parseDeletes maxArguments full (Suc k) i1 (acc @ [key]) = Inr (e, ds)"
    by (auto split: sum.splits option.splits)
  from parseDeletes_last [OF r assms(3)] assms(4,6) have i1n: "i1 \<le> n"
    by (simp add: payloadBytes_def)
  have q1: "parsePayload maxArguments (take n full) idx = Inr (Some (i1, key))"
    by (rule parsePayload_take_same [OF assms(1) p1 i1n])
  from Suc.IH [OF r i1n] q1 show ?case by simp
qed

text \<open>
  Inside the bytes of a binary last delete key the decode succeeds: a prefix that ends
  there decodes, without an exception, to the message with that key cut short.
\<close>

lemma parseMessage_take_binary:
  assumes "parseMessageIdx maxArguments full = Inr (length full, m)"
    and "toDelete m \<noteq> []" and "last (toDelete m) = Binary b"
    and "length full - length b \<le> n" and "n < length full"
  shows "parseMessage maxArguments (take n full)
         = Inr (m\<lparr>toDelete := butlast (toDelete m)
                                @ [Binary (take (n - (length full - length b)) b)]\<rparr>)"
proof -
  let ?buf = "take n full"
  from assms(5) have nle: "n \<le> length full" by simp
  from assms(1) obtain numUpdates eu obj numDeletes ds where
    n1: "getUint32 full 0 = Inr numUpdates" and
    u: "parseUpdates maxArguments full numUpdates 4 [] = Inr (eu, obj)" and
    n2: "getUint32 full eu = Inr numDeletes" and
    d: "parseDeletes maxArguments full numDeletes (eu + 4) [] = Inr (length full, ds)" and
    m: "m = \<lparr>toUpdate = obj, toDelete = ds\<rparr>"
    by (auto simp: parseMessageIdx_def split: sum.splits)
  from assms(2) m have "ds \<noteq> []" by simp
  with d obtain k where k: "numDeletes = Suc k" by (cases numDeletes) auto
  from assms(3) m have lastb: "last ds = Binary b" by simp
  from parseDeletes_last [OF d [unfolded k]] lastb assms(4)
  have start: "eu + 4 \<le> n" by (simp add: payloadBytes_def)
  from parseDeletes_mono [OF d] have euf: "eu \<le> length full" by simp
  have g: "\<And>i. getUint32 ?buf i = (if i + 4 \<le> n then getUint32 full i else Inl RangeError)"
    by (simp add: getUint32_def getUint_take [OF nle])
  from start have four: "4 \<le> n" by simp
  have m1: "getUint32 ?buf 0 = Inr numUpdates" using four by (simp add: g n1)
  have u': "parseUpdates maxArguments ?buf numUpdates 4 [] = Inr (eu, obj)"
    using parseUpdates_take [OF nle u four euf] start by simp
  have m2: "getUint32 ?buf eu = Inr numDeletes" using start by (simp add: g n2)
  have d': "parseDeletes maxArguments ?buf (Suc k) (eu + 4) []
            = Inr (length full, butlast ds @ [Binary (take (n - (length full - length b)) b)])"
    by (rule parseDeletes_take_binary [OF nle d [unfolded k] _ lastb start assms(4,5)]) simp
  show ?thesis
    by (simp add: parseMessage_def parseMessageIdx_def m1 u' m2 k d' m del: parseDeletes.simps)
qed

text \<open>
  For the messages the encoder writes: with the counts and lengths in range, the text
  payloads within the engine's limit and no update key named \<^verbatim>\<open>__proto__\<close>, every proper
  prefix of the message makes the decoder throw \<^verbatim>\<open>RangeError\<close>, the prefixes that end
  inside the bytes of a binary last delete key apart. The code has no error of its own for
  a malformed message: the exception is the one the DataView and typed-array bounds
  checks raise. \<^verbatim>\<open>parseMessage\<close> has no effect other than its result.
\<close>

lemma encodeMessage_truncated:
  assumes "length ups < 2 ^ 32" and "length dels < 2 ^ 32"
    and "\<forall>kv \<in> set ups. length (payloadBytes (snd (fst kv))) < 2 ^ 53
                        \<and> length (payloadBytes (snd (snd kv))) < 2 ^ 53"
    and "\<forall>d \<in> set dels. length (payloadBytes (snd d)) < 2 ^ 53"
    and "\<forall>kv \<in> set ups. fitsCall maxArguments (snd (fst kv))
                        \<and> fitsCall maxArguments (snd (snd kv))"
    and "\<forall>d \<in> set dels. fitsCall maxArguments (snd d)"
    and "\<forall>kv \<in> set ups. toPropertyKey (snd (fst kv)) \<noteq> ascii ''__proto__''"
    and "n < length (encodeMessage ups dels)"
    and "dels = [] \<or> isText (snd (last dels))
         \<or> n < length (encodeMessage ups dels) - length (payloadBytes (snd (last dels)))"
  shows "parseMessage maxArguments (take n (encodeMessage ups dels)) = Inl RangeError"
proof -
  have "(2::nat) ^ 53 \<le> 2 ^ 64" by simp
  with assms(3) have a3: "\<forall>kv \<in> set ups. length (payloadBytes (snd (fst kv))) < 2 ^ 64
                        \<and> length (payloadBytes (snd (snd kv))) < 2 ^ 64"
    by (meson less_le_trans)
  from assms(4) \<open>(2::nat) ^ 53 \<le> 2 ^ 64\<close>
  have a4: "\<forall>d \<in> set dels. length (payloadBytes (snd d)) < 2 ^ 64"
    by (meson less_le_trans)
  let ?m = "\<lparr>toUpdate = foldl updateStep [] ups, toDelete = map snd dels\<rparr>"
  note whole = parseMessageIdx_encodeMessage [OF assms(1,2) a3 a4 assms(5,6)]
  have "toDelete ?m = [] \<or> isText (last (toDelete ?m))
        \<or> n < length (encodeMessage ups dels) - length (payloadBytes (last (toDelete ?m)))"
    using assms(9) by (cases "dels = []") (simp_all add: last_map)
  with whole assms(8) show ?thesis by (rule parseMessage_take)
qed

text \<open>
  Claim C2 at a message whose last delete key is binary. The 12-byte message below holds
  no update and one binary delete key of two bytes. Cut after 11 bytes, it decodes without
  an exception to a key of one byte: \<^verbatim>\<open>buffer.slice\<close> clamps to the buffer instead of
  throwing, and no later read detects the missing byte. The same bytes with the type tag
  of a text key make \<^verbatim>\<open>new Uint8Array(buffer, idx, lenPayload)\<close> throw \<^verbatim>\<open>RangeError\<close>, as the
  claim expects of every truncation.
\<close>

theorem parseMessage_truncated_binary_key:
  "parseMessageIdx 65536 [0, 0, 0, 0, 0, 0, 0, 1, 2, 2, 97, 98]
     = Inr (12, \<lparr>toUpdate = [], toDelete = [Binary [97, 98]]\<rparr>)
   \<and> parseMessage 65536 (take 11 [0, 0, 0, 0, 0, 0, 0, 1, 2, 2, 97, 98])
     = Inr \<lparr>toUpdate = [], toDelete = [Binary [97]]\<rparr>
   \<and> parseMessage 65536 (take 11 [0, 0, 0, 0, 0, 0, 0, 1, 1, 2, 97, 98])
     = Inl RangeError"
proof (intro conjI)
  show "parseMessageIdx 65536 [0, 0, 0, 0, 0, 0, 0, 1, 2, 2, 97, 98]
     = Inr (12, \<lparr>toUpdate = [], toDelete = [Binary [97, 98]]\<rparr>)"
    by (simp add: decoder_defs)
  show "parseMessage 65536 (take 11 [0, 0, 0, 0, 0, 0, 0, 1, 2, 2, 97, 98])
     = Inr \<lparr>toUpdate = [], toDelete = [Binary [97]]\<rparr>"
    by (simp add: decoder_defs)
  show "parseMessage 65536 (take 11 [0, 0, 0, 0, 0, 0, 0, 1, 1, 2, 97, 98])
     = Inl RangeError"
    by (simp add: decoder_defs)
qed
section \<open>Properties of the trajectory ring buffer\<close>

lemma LEN_pos: "0 < LEN_TRAJECTORY_TRAIL"
  by (simp add: LEN_TRAJECTORY_TRAIL_def)

lemma appendAll_snoc:
  "appendAll t (ps @ [p])
   = (case appendAll t ps of Inl e \<Rightarrow> Inl e | Inr t' \<Rightarrow> appendPosition t' p)"
  by (induction ps arbitrary: t) (auto split: sum.splits)

lemma appendAll_filling:
  "length ps \<le> LEN_TRAJECTORY_TRAIL \<Longrightarrow>
   \<exists>t. appendAll (Trajectory_create z) ps = Inr t \<and> traj_idx t = length ps
       \<and> traj_len t = length ps
       \<and> traj_positions t = ps @ replicate (LEN_TRAJECTORY_TRAIL + 1 - length ps) z
       \<and> drawRange1 t = (0, length ps) \<and> drawRange2 t = (0, 0)"
proof (induction ps rule: rev_induct)
  case Nil
  then show ?case by (simp add: Trajectory_create_def)
next
  case (snoc p ps)
  then obtain t where t: "appendAll (Trajectory_create z) ps = Inr t"
    "traj_idx t = length ps" "traj_len t = length ps"
    "traj_positions t = ps @ replicate (LEN_TRAJECTORY_TRAIL + 1 - length ps) z"
    "drawRange1 t = (0, length ps)" "drawRange2 t = (0, 0)" by auto
  from snoc.prems have lt: "length ps < LEN_TRAJECTORY_TRAIL" by simp
  have upd: "(ps @ replicate (LEN_TRAJECTORY_TRAIL + 1 - length ps) z)[length ps := p]
        = (ps @ [p]) @ replicate (LEN_TRAJECTORY_TRAIL + 1 - length (ps @ [p])) z"
  proof -
    from lt obtain k where k: "LEN_TRAJECTORY_TRAIL + 1 - length ps = Suc k"
      by (metis Suc_diff_le add.commute less_imp_le_nat plus_1_eq_Suc le_SucI)
    then have "LEN_TRAJECTORY_TRAIL + 1 - length (ps @ [p]) = k" by simp
    with k show ?thesis by (simp add: list_update_append)
  qed
  show ?case
    using t lt upd by (simp add: appendAll_snoc appendPosition_def attribute_set_def)
qed


lemma ring_step_inner:
  fixes ps :: "'p list"
  assumes "C < length ps" and "0 < I" and "I < C"
  shows "(drop (length ps - I) ps @ take (C + 1 - I) (drop (length ps - C) ps))[I := p]
         = drop (length (ps @ [p]) - (I + 1)) (ps @ [p])
           @ take (C + 1 - (I + 1)) (drop (length (ps @ [p]) - C) (ps @ [p]))"
  using assms
  by (intro nth_equalityI) (auto simp: nth_append nth_list_update min_def split: if_splits)

lemma ring_step_wrap:
  fixes ps :: "'p list"
  assumes "C < length ps" and "0 < C"
  shows "(drop (length ps - C) ps @ take (C + 1 - C) (drop (length ps - C) ps))[C := p, 0 := p]
         = drop (length (ps @ [p]) - 1) (ps @ [p])
           @ take (C + 1 - 1) (drop (length (ps @ [p]) - C) (ps @ [p]))"
  using assms
  by (intro nth_equalityI) (auto simp: nth_append nth_list_update min_def split: if_splits)

lemma ring_step_first_wrap:
  fixes ps :: "'p list"
  assumes "C = length ps" and "0 < C"
  shows "(ps @ replicate (C + 1 - length ps) z)[C := p, 0 := p]
         = drop (length (ps @ [p]) - 1) (ps @ [p])
           @ take (C + 1 - 1) (drop (length (ps @ [p]) - C) (ps @ [p]))"
  using assms
  by (intro nth_equalityI) (auto simp: nth_append nth_list_update min_def split: if_splits)


lemma ring_index_step:
  fixes C n :: nat
  assumes "0 < C" and "0 < n"
  shows "n mod C + 1 = (if (n - 1) mod C + 1 < C then (n - 1) mod C + 1 + 1 else 1)"
proof -
  from assms(2) obtain m where n: "n = Suc m" by (cases n) auto
  have "m mod C < C" using assms(1) by simp
  then show ?thesis unfolding n by (auto simp: mod_Suc)
qed

lemma appendAll_full:
  assumes "LEN_TRAJECTORY_TRAIL < length ps"
  shows "\<exists>t. appendAll (Trajectory_create z) ps = Inr t
       \<and> traj_len t = LEN_TRAJECTORY_TRAIL
       \<and> traj_idx t = (length ps - 1) mod LEN_TRAJECTORY_TRAIL + 1
       \<and> traj_positions t
           = drop (length ps - traj_idx t) ps
             @ take (LEN_TRAJECTORY_TRAIL + 1 - traj_idx t) (drop (length ps - LEN_TRAJECTORY_TRAIL) ps)
       \<and> drawRange1 t = (0, traj_idx t)
       \<and> drawRange2 t = (traj_idx t, LEN_TRAJECTORY_TRAIL - traj_idx t + 1)"
  using assms
proof (induction ps rule: rev_induct)
  case Nil
  then show ?case by simp
next
  case (snoc p ps)
  let ?C = "LEN_TRAJECTORY_TRAIL"
  let ?n = "length ps"
  have Cpos: "0 < ?C" by (rule LEN_pos)
  from snoc.prems have "?C = ?n \<or> ?C < ?n" by auto
  then show ?case
  proof
    assume eq: "?C = ?n"
    with appendAll_filling [of ps z] obtain t where
      t: "appendAll (Trajectory_create z) ps = Inr t" "traj_idx t = ?n" "traj_len t = ?n"
        "traj_positions t = ps @ replicate (?C + 1 - ?n) z" by auto
    have idx': "(length (ps @ [p]) - 1) mod ?C + 1 = 1" using eq by simp
    have "appendPosition t p
          = Inr (t\<lparr>traj_idx := 1,
                   traj_positions := (traj_positions t)[?C := p, 0 := p],
                   drawRange1 := (0, 1), drawRange2 := (1, ?C - 1 + 1)\<rparr>)"
      using t eq Cpos by (simp add: appendPosition_def attribute_set_def)
    moreover have "(traj_positions t)[?C := p, 0 := p]
          = drop (length (ps @ [p]) - 1) (ps @ [p])
            @ take (?C + 1 - 1) (drop (length (ps @ [p]) - ?C) (ps @ [p]))"
      unfolding t(4) by (rule ring_step_first_wrap [OF eq Cpos])
    ultimately show ?thesis
      using t(1,3) eq idx' by (simp add: appendAll_snoc del: length_append)
  next
    assume lt: "?C < ?n"
    from snoc.IH [OF lt] obtain t where
      t: "appendAll (Trajectory_create z) ps = Inr t" "traj_len t = ?C"
        "traj_idx t = (?n - 1) mod ?C + 1"
        "traj_positions t = drop (?n - traj_idx t) ps @ take (?C + 1 - traj_idx t) (drop (?n - ?C) ps)"
      by auto
    let ?I = "traj_idx t"
    have Ipos: "0 < ?I" and IleC: "?I \<le> ?C" using t(3) Cpos
      by (simp_all add: Suc_leI)
    have len: "length (traj_positions t) = ?C + 1"
      using lt Ipos IleC unfolding t(4) by (auto simp: min_def)
    have npos: "0 < ?n" using lt by (cases ps) simp_all
    have idx': "(length (ps @ [p]) - 1) mod ?C + 1 = (if ?I < ?C then ?I + 1 else 1)"
      using ring_index_step [OF Cpos npos] t(3) by simp
    show ?thesis
    proof (cases "?I < ?C")
      case True
      have "appendPosition t p
            = Inr (t\<lparr>traj_idx := ?I + 1,
                     traj_positions := (traj_positions t)[?I := p],
                     drawRange1 := (0, ?I + 1), drawRange2 := (?I + 1, ?C - (?I + 1) + 1)\<rparr>)"
        using t(2) True len by (simp add: appendPosition_def attribute_set_def)
      moreover have "(traj_positions t)[?I := p]
            = drop (length (ps @ [p]) - (?I + 1)) (ps @ [p])
              @ take (?C + 1 - (?I + 1)) (drop (length (ps @ [p]) - ?C) (ps @ [p]))"
        by (subst t(4)) (rule ring_step_inner [OF lt Ipos True])
      ultimately show ?thesis
        using t(1,2) idx' True by (simp add: appendAll_snoc del: length_append)
    next
      case False
      with IleC have I: "?I = ?C" by simp
      have "appendPosition t p
            = Inr (t\<lparr>traj_idx := 1,
                     traj_positions := (traj_positions t)[?C := p, 0 := p],
                     drawRange1 := (0, 1), drawRange2 := (1, ?C - 1 + 1)\<rparr>)"
        using t(2) I len Cpos by (simp add: appendPosition_def attribute_set_def)
      moreover have "(traj_positions t)[?C := p, 0 := p]
            = drop (length (ps @ [p]) - 1) (ps @ [p])
              @ take (?C + 1 - 1) (drop (length (ps @ [p]) - ?C) (ps @ [p]))"
        using ring_step_wrap [OF lt Cpos, of p] t(4) I by simp
      ultimately show ?thesis
        using t(1,2) idx' False by (simp add: appendAll_snoc del: length_append)
    qed
  qed
qed


lemma appendPosition_step:
  assumes "traj_idx traj \<le> LEN_TRAJECTORY_TRAIL"
    and "length (traj_positions traj) = LEN_TRAJECTORY_TRAIL + 1"
  shows "\<exists>traj'. appendPosition traj pos = Inr traj'
         \<and> (if traj_idx traj < LEN_TRAJECTORY_TRAIL
            then traj_idx traj' = traj_idx traj + 1
               \<and> traj_positions traj' = (traj_positions traj)[traj_idx traj := pos]
            else traj_idx traj' = 1
               \<and> traj_positions traj' = (traj_positions traj)[traj_idx traj := pos, 0 := pos])"
  using assms by (auto simp: appendPosition_def attribute_set_def)


lemma segment_first: "length A = i \<Longrightarrow> segment (A @ B) (0, i) = A"
  by (simp add: segment_def)

lemma segment_second: "length A = i \<Longrightarrow> length B = k \<Longrightarrow> segment (A @ B) (i, k) = B"
  by (simp add: segment_def)

text \<open>
  Claim C5. With \<open>C = LEN_TRAJECTORY_TRAIL\<close>: an append writes the position at the write
  index and increments the index; when the index passes \<open>C\<close> the same position is written
  again at slot 0 and the index becomes 1. After any sequence of more than \<open>C\<close> appends to
  a fresh trajectory (the buffer was full when the last one was made), no append has
  thrown, the filled count is \<open>C\<close>, the draw ranges are \<open>(0, idx)\<close> and
  \<open>(idx, C - idx + 1)\<close>, the two segments have \<open>C + 1\<close> points together and, one after the
  other, are the whole buffer. The first segment holds the last \<open>idx\<close> appended positions,
  the second the ones before them back to the \<open>C\<close>-th last, so the second segment followed
  by the first without its seam point is exactly the last \<open>C\<close> appended positions: every
  older position has been overwritten.
\<close>

theorem appendPosition_ring:
  fixes ps :: "'p list"
  assumes "LEN_TRAJECTORY_TRAIL < length ps"
  shows "(\<forall>(traj :: 'p trajectory) pos.
            traj_idx traj \<le> LEN_TRAJECTORY_TRAIL
            \<and> length (traj_positions traj) = LEN_TRAJECTORY_TRAIL + 1 \<longrightarrow>
            (\<exists>traj'. appendPosition traj pos = Inr traj'
               \<and> (if traj_idx traj < LEN_TRAJECTORY_TRAIL
                  then traj_idx traj' = traj_idx traj + 1
                     \<and> traj_positions traj' = (traj_positions traj)[traj_idx traj := pos]
                  else traj_idx traj' = 1
                     \<and> traj_positions traj'
                         = (traj_positions traj)[traj_idx traj := pos, 0 := pos])))
       \<and> (\<exists>t. appendAll (Trajectory_create z) ps = Inr t
            \<and> traj_len t = LEN_TRAJECTORY_TRAIL
            \<and> traj_idx t = (length ps - 1) mod LEN_TRAJECTORY_TRAIL + 1
            \<and> drawRange1 t = (0, traj_idx t)
            \<and> drawRange2 t = (traj_idx t, LEN_TRAJECTORY_TRAIL - traj_idx t + 1)
            \<and> length (segment (traj_positions t) (drawRange1 t))
                + length (segment (traj_positions t) (drawRange2 t))
                = LEN_TRAJECTORY_TRAIL + 1
            \<and> segment (traj_positions t) (drawRange1 t)
                @ segment (traj_positions t) (drawRange2 t) = traj_positions t
            \<and> segment (traj_positions t) (drawRange1 t) = drop (length ps - traj_idx t) ps
            \<and> segment (traj_positions t) (drawRange2 t)
                = take (LEN_TRAJECTORY_TRAIL + 1 - traj_idx t)
                    (drop (length ps - LEN_TRAJECTORY_TRAIL) ps)
            \<and> segment (traj_positions t) (drawRange2 t)
                @ tl (segment (traj_positions t) (drawRange1 t))
                = drop (length ps - LEN_TRAJECTORY_TRAIL) ps)"
proof (intro conjI allI impI)
  fix traj :: "'p trajectory" and pos
  assume "traj_idx traj \<le> LEN_TRAJECTORY_TRAIL
          \<and> length (traj_positions traj) = LEN_TRAJECTORY_TRAIL + 1"
  then show "\<exists>traj'. appendPosition traj pos = Inr traj'
               \<and> (if traj_idx traj < LEN_TRAJECTORY_TRAIL
                  then traj_idx traj' = traj_idx traj + 1
                     \<and> traj_positions traj' = (traj_positions traj)[traj_idx traj := pos]
                  else traj_idx traj' = 1
                     \<and> traj_positions traj'
                         = (traj_positions traj)[traj_idx traj := pos, 0 := pos])"
    by (intro appendPosition_step) simp_all
next
  let ?C = "LEN_TRAJECTORY_TRAIL"
  let ?n = "length ps"
  from appendAll_full [OF assms, of z] obtain t where
    t: "appendAll (Trajectory_create z) ps = Inr t" "traj_len t = ?C"
      "traj_idx t = (?n - 1) mod ?C + 1"
      "traj_positions t = drop (?n - traj_idx t) ps @ take (?C + 1 - traj_idx t) (drop (?n - ?C) ps)"
      "drawRange1 t = (0, traj_idx t)" "drawRange2 t = (traj_idx t, ?C - traj_idx t + 1)"
    by auto
  let ?I = "traj_idx t"
  let ?A = "drop (?n - ?I) ps"
  let ?B = "take (?C + 1 - ?I) (drop (?n - ?C) ps)"
  have Cpos: "0 < ?C" by (rule LEN_pos)
  have Ipos: "0 < ?I" and IleC: "?I \<le> ?C" using t(3) Cpos by (simp_all add: Suc_leI)
  have lA: "length ?A = ?I" using assms IleC by simp
  have lB: "length ?B = ?C + 1 - ?I" using assms Ipos IleC by (auto simp: min_def)
  have s1: "segment (traj_positions t) (drawRange1 t) = ?A"
    unfolding t(5) by (subst t(4)) (rule segment_first [OF lA])
  have s2: "segment (traj_positions t) (drawRange2 t) = ?B"
  proof -
    have e: "?C - ?I + 1 = ?C + 1 - ?I" using IleC by simp
    have "segment (?A @ ?B) (?I, ?C + 1 - ?I) = ?B"
      by (rule segment_second [OF lA lB])
    then show ?thesis
      unfolding t(6) e by (subst t(4))
  qed
  have seam: "?B @ tl ?A = drop (?n - ?C) ps"
  proof -
    have k: "Suc (?n - ?I) = (?C + 1 - ?I) + (?n - ?C)" using assms IleC by simp
    have "tl ?A = drop (Suc (?n - ?I)) ps" by (simp add: drop_Suc tl_drop)
    also have "\<dots> = drop (?C + 1 - ?I) (drop (?n - ?C) ps)"
      unfolding k by (simp only: drop_drop)
    finally have "tl ?A = drop (?C + 1 - ?I) (drop (?n - ?C) ps)" .
    then show ?thesis by (simp only: append_take_drop_id)
  qed
  show "\<exists>t. appendAll (Trajectory_create z) ps = Inr t
            \<and> traj_len t = LEN_TRAJECTORY_TRAIL
            \<and> traj_idx t = (length ps - 1) mod LEN_TRAJECTORY_TRAIL + 1
            \<and> drawRange1 t = (0, traj_idx t)
            \<and> drawRange2 t = (traj_idx t, LEN_TRAJECTORY_TRAIL - traj_idx t + 1)
            \<and> length (segment (traj_positions t) (drawRange1 t))
                + length (segment (traj_positions t) (drawRange2 t))
                = LEN_TRAJECTORY_TRAIL + 1
            \<and> segment (traj_positions t) (drawRange1 t)
                @ segment (traj_positions t) (drawRange2 t) = traj_positions t
            \<and> segment (traj_positions t) (drawRange1 t) = drop (length ps - traj_idx t) ps
            \<and> segment (traj_positions t) (drawRange2 t)
                = take (LEN_TRAJECTORY_TRAIL + 1 - traj_idx t)
                    (drop (length ps - LEN_TRAJECTORY_TRAIL) ps)
            \<and> segment (traj_positions t) (drawRange2 t)
                @ tl (segment (traj_positions t) (drawRange1 t))
                = drop (length ps - LEN_TRAJECTORY_TRAIL) ps"
  proof (intro exI [of _ t] conjI)
    show "length (segment (traj_positions t) (drawRange1 t))
          + length (segment (traj_positions t) (drawRange2 t)) = ?C + 1"
      unfolding s1 s2 lA lB using IleC by simp
    show "segment (traj_positions t) (drawRange1 t) @ segment (traj_positions t) (drawRange2 t)
          = traj_positions t"
      unfolding s1 s2 by (rule t(4) [symmetric])
    show "segment (traj_positions t) (drawRange2 t) @ tl (segment (traj_positions t) (drawRange1 t))
          = drop (?n - ?C) ps"
      unfolding s1 s2 by (rule seam)
    show "appendAll (Trajectory_create z) ps = Inr t" by (rule t(1))
    show "traj_len t = ?C" by (rule t(2))
    show "traj_idx t = (?n - 1) mod ?C + 1" by (rule t(3))
    show "drawRange1 t = (0, traj_idx t)" by (rule t(5))
    show "drawRange2 t = (traj_idx t, ?C - traj_idx t + 1)" by (rule t(6))
    show "segment (traj_positions t) (drawRange1 t) = drop (?n - traj_idx t) ps" by (rule s1)
    show "segment (traj_positions t) (drawRange2 t)
          = take (?C + 1 - traj_idx t) (drop (?n - ?C) ps)" by (rule s2)
  qed
qed

theorem appendPosition_ring_witness:
  "(\<exists>traj'. appendPosition (Trajectory_create (0::nat)) 7 = Inr traj'
       \<and> traj_idx traj' = 1
       \<and> traj_positions traj' = (replicate 501 0)[0 := 7])
   \<and> (\<exists>t. appendAll (Trajectory_create (0::nat)) [0..<505] = Inr t
       \<and> traj_len t = 500 \<and> traj_idx t = 5
       \<and> drawRange1 t = (0, 5) \<and> drawRange2 t = (5, 496)
       \<and> segment (traj_positions t) (drawRange1 t) = [500..<505]
       \<and> segment (traj_positions t) (drawRange2 t) = [5..<501])"
proof -
  have h: "LEN_TRAJECTORY_TRAIL < length [0..<505]"
    by (simp add: LEN_TRAJECTORY_TRAIL_def)
  note ring = appendPosition_ring [OF h, of 0]
  have "traj_idx (Trajectory_create (0::nat)) \<le> LEN_TRAJECTORY_TRAIL
        \<and> length (traj_positions (Trajectory_create (0::nat))) = LEN_TRAJECTORY_TRAIL + 1"
    by (simp add: Trajectory_create_def)
  with ring [THEN conjunct1, rule_format, of "Trajectory_create 0" 7]
  have step: "\<exists>traj'. appendPosition (Trajectory_create (0::nat)) 7 = Inr traj'
       \<and> traj_idx traj' = 1
       \<and> traj_positions traj' = (replicate 501 0)[0 := 7]"
    by (simp add: Trajectory_create_def LEN_TRAJECTORY_TRAIL_def)
  from ring [THEN conjunct2] obtain t where
    t: "appendAll (Trajectory_create (0::nat)) [0..<505] = Inr t"
      "traj_len t = LEN_TRAJECTORY_TRAIL"
      "traj_idx t = (length [0..<505] - 1) mod LEN_TRAJECTORY_TRAIL + 1"
      "drawRange1 t = (0, traj_idx t)"
      "drawRange2 t = (traj_idx t, LEN_TRAJECTORY_TRAIL - traj_idx t + 1)"
      "segment (traj_positions t) (drawRange1 t) = drop (length [0..<505] - traj_idx t) [0..<505]"
      "segment (traj_positions t) (drawRange2 t)
       = take (LEN_TRAJECTORY_TRAIL + 1 - traj_idx t)
           (drop (length [0..<505] - LEN_TRAJECTORY_TRAIL) [0..<505])"
    by blast
  have i: "traj_idx t = 5" using t(3) by (simp add: LEN_TRAJECTORY_TRAIL_def)
  have "appendAll (Trajectory_create (0::nat)) [0..<505] = Inr t
       \<and> traj_len t = 500 \<and> traj_idx t = 5
       \<and> drawRange1 t = (0, 5) \<and> drawRange2 t = (5, 496)
       \<and> segment (traj_positions t) (drawRange1 t) = [500..<505]
       \<and> segment (traj_positions t) (drawRange2 t) = [5..<501]"
    using t(1,2,4,5,6,7) unfolding i by (simp add: LEN_TRAJECTORY_TRAIL_def)
  with step show ?thesis by blast
qed

section \<open>Properties of the kinematic updater\<close>

lemma of_char_toLowerCase:
  "(of_char (toLowerCase c) :: nat)
   = (if (65 \<le> (of_char c :: nat) \<and> (of_char c :: nat) \<le> 90)
         \<or> (192 \<le> (of_char c :: nat) \<and> (of_char c :: nat) \<le> 222 \<and> (of_char c :: nat) \<noteq> 215)
      then of_char c + 32 else of_char c)"
  by (auto simp: toLowerCase_def Let_def of_char_of)

lemma char_code_eq: "c = d \<longleftrightarrow> (of_char c :: nat) = of_char d"
  by simp

lemma toLowerCase_r: "toLowerCase c = CHR ''r'' \<longleftrightarrow> c = CHR ''r'' \<or> c = CHR ''R''"
  unfolding char_code_eq [of _ "CHR ''r''"] char_code_eq [of _ "CHR ''R''"] of_char_toLowerCase
  by auto

lemma toLowerCase_p: "toLowerCase c = CHR ''p'' \<longleftrightarrow> c = CHR ''p'' \<or> c = CHR ''P''"
  unfolding char_code_eq [of _ "CHR ''p''"] char_code_eq [of _ "CHR ''P''"] of_char_toLowerCase
  by auto


lemma isRevolute_iff: "isRevolute b \<longleftrightarrow> jointType b = CHR ''r'' \<or> jointType b = CHR ''R''"
  by (simp add: isRevolute_def toLowerCase_r)

lemma isPrismatic_iff: "isPrismatic b \<longleftrightarrow> jointType b = CHR ''p'' \<or> jointType b = CHR ''P''"
  by (simp add: isPrismatic_def toLowerCase_p)

lemma updateBody_ok:
  assumes "isRevolute b \<or> isPrismatic b \<longrightarrow> jointAxis b \<noteq> None"
  shows "updateBody three qi b =
     Inr (b\<lparr>body_quaternion :=
               premultiply three
                 (if isRevolute b then setFromAxisAngle three (the (jointAxis b)) qi
                  else quat_identity three)
                 (rest_quaternion b),
             body_position :=
               vec_add three
                 (if isPrismatic b then multiplyScalar three (the (jointAxis b)) qi
                  else vec_zero three)
                 (rest_position b)\<rparr>)"
  using assms
  by (auto simp: updateBody_def isRevolute_def isPrismatic_def Let_def split: option.splits)

lemma updateBodies_ok:
  assumes "\<forall>b \<in> set bodies. isRevolute b \<or> isPrismatic b \<longrightarrow> jointAxis b \<noteq> None"
  shows "\<exists>bodies'. updateBodies three q i bodies = Inr bodies'
           \<and> length bodies' = length bodies
           \<and> (\<forall>k < length bodies. updateBody three (q_at q (i + k)) (bodies ! k) = Inr (bodies' ! k))"
  using assms
proof (induction bodies arbitrary: i)
  case Nil
  then show ?case by simp
next
  case (Cons b bodies)
  from Cons.prems have ax: "isRevolute b \<or> isPrismatic b \<longrightarrow> jointAxis b \<noteq> None" by simp
  from updateBody_ok [OF ax, of three "q_at q i"] obtain b' where
    b': "updateBody three (q_at q i) b = Inr b'" by blast
  from Cons.IH [of "i + 1"] Cons.prems obtain rest' where
    r: "updateBodies three q (i + 1) bodies = Inr rest'" "length rest' = length bodies"
      "\<forall>k < length bodies. updateBody three (q_at q (i + 1 + k)) (bodies ! k) = Inr (rest' ! k)"
    by auto
  have "\<forall>k < length (b # bodies).
          updateBody three (q_at q (i + k)) ((b # bodies) ! k) = Inr ((b' # rest') ! k)"
  proof (intro allI impI)
    fix k assume "k < length (b # bodies)"
    then show "updateBody three (q_at q (i + k)) ((b # bodies) ! k) = Inr ((b' # rest') ! k)"
      using b' r(3) by (cases k) auto
  qed
  with b' r(1,2) show ?case by simp
qed

text \<open>
  Claim C6. For a chain whose revolute and prismatic bodies have a joint axis, and any
  configuration vector \<open>q\<close>, \<^verbatim>\<open>updateQ\<close> throws nothing, returns \<^verbatim>\<open>true\<close> and gives body \<open>i\<close>
  the local orientation \<open>rest * axisAngle(axis, q[i])\<close> when its joint type is \<^verbatim>\<open>r\<close> or \<^verbatim>\<open>R\<close>
  and the rest orientation otherwise, and the local translation \<open>rest + axis * q[i]\<close> when
  its joint type is \<^verbatim>\<open>p\<close> or \<^verbatim>\<open>P\<close> and the rest position otherwise. A body of any other
  joint type is left at its rest pose, whatever \<open>q[i]\<close> and its axis are. The code
  multiplies the rest orientation by the identity and adds the rest position to the zero
  vector in the other cases, and adds the rest position to the scaled axis, so the
  statement rests on three laws of the library's arithmetic: the identity quaternion is
  a right unit, the zero vector is neutral, and vector addition commutes.
\<close>

theorem updateQ_local_pose:
  assumes axes: "\<forall>b \<in> set (robot_bodies robot).
                   isRevolute b \<or> isPrismatic b \<longrightarrow> jointAxis b \<noteq> None"
    and unit: "\<forall>p. premultiply three (quat_identity three) p = p"
    and zero: "\<forall>v. vec_add three (vec_zero three) v = v"
    and comm: "\<forall>u v. vec_add three u v = vec_add three v u"
  shows "\<exists>robot'. updateQ three robot q = Inr (robot', True)
          \<and> length (robot_bodies robot') = length (robot_bodies robot)
          \<and> (\<forall>i < length (robot_bodies robot).
                body_quaternion (robot_bodies robot' ! i)
                  = (if isRevolute (robot_bodies robot ! i)
                     then premultiply three
                            (setFromAxisAngle three (the (jointAxis (robot_bodies robot ! i)))
                               (q_at q i))
                            (rest_quaternion (robot_bodies robot ! i))
                     else rest_quaternion (robot_bodies robot ! i))
                \<and> body_position (robot_bodies robot' ! i)
                  = (if isPrismatic (robot_bodies robot ! i)
                     then vec_add three (rest_position (robot_bodies robot ! i))
                            (multiplyScalar three (the (jointAxis (robot_bodies robot ! i)))
                               (q_at q i))
                     else rest_position (robot_bodies robot ! i)))"
proof -
  let ?bs = "robot_bodies robot"
  from updateBodies_ok [OF axes, of three q 0] obtain bodies' where
    u: "updateBodies three q 0 ?bs = Inr bodies'" "length bodies' = length ?bs"
      "\<forall>k < length ?bs. updateBody three (q_at q (0 + k)) (?bs ! k) = Inr (bodies' ! k)"
    by blast
  let ?robot' = "robot\<lparr>robot_bodies := bodies', robot_q := q\<rparr>"
  have res: "updateQ three robot q = Inr (?robot', True)"
    by (simp add: updateQ_def u(1))
  have pose: "body_quaternion (bodies' ! i)
                  = (if isRevolute (?bs ! i)
                     then premultiply three
                            (setFromAxisAngle three (the (jointAxis (?bs ! i))) (q_at q i))
                            (rest_quaternion (?bs ! i))
                     else rest_quaternion (?bs ! i))
                \<and> body_position (bodies' ! i)
                  = (if isPrismatic (?bs ! i)
                     then vec_add three (rest_position (?bs ! i))
                            (multiplyScalar three (the (jointAxis (?bs ! i))) (q_at q i))
                     else rest_position (?bs ! i))"
    if i: "i < length ?bs" for i
  proof -
    from i have mem: "?bs ! i \<in> set ?bs" by simp
    with axes have ax: "isRevolute (?bs ! i) \<or> isPrismatic (?bs ! i) \<longrightarrow> jointAxis (?bs ! i) \<noteq> None"
      by blast
    from u(3) i have "updateBody three (q_at q i) (?bs ! i) = Inr (bodies' ! i)" by simp
    with updateBody_ok [OF ax, of three "q_at q i"]
    have eq: "bodies' ! i = (?bs ! i)\<lparr>body_quaternion :=
               premultiply three
                 (if isRevolute (?bs ! i) then setFromAxisAngle three (the (jointAxis (?bs ! i))) (q_at q i)
                  else quat_identity three)
                 (rest_quaternion (?bs ! i)),
             body_position :=
               vec_add three
                 (if isPrismatic (?bs ! i) then multiplyScalar three (the (jointAxis (?bs ! i))) (q_at q i)
                  else vec_zero three)
                 (rest_position (?bs ! i))\<rparr>" by simp
    have c: "vec_add three (multiplyScalar three (the (jointAxis (?bs ! i))) (q_at q i))
               (rest_position (?bs ! i))
             = vec_add three (rest_position (?bs ! i))
                 (multiplyScalar three (the (jointAxis (?bs ! i))) (q_at q i))"
      using comm by blast
    show ?thesis
      unfolding eq by (simp add: unit [rule_format] zero [rule_format] c)
  qed
  from res u(2) pose show ?thesis by (intro exI [of _ ?robot']) simp
qed


theorem updateQ_local_pose_witness:
  "\<exists>robot'. updateQ int_three demo_robot [3, 4, 5] = Inr (robot', True)
     \<and> body_quaternion (robot_bodies robot' ! 0) = (0, 0, 3, 1)
     \<and> body_position (robot_bodies robot' ! 0) = (0, 0, 0)
     \<and> body_quaternion (robot_bodies robot' ! 1) = (0, 0, 0, 1)
     \<and> body_position (robot_bodies robot' ! 1) = (5, 2, 3)
     \<and> body_quaternion (robot_bodies robot' ! 2) = (0, 1, 0, 0)
     \<and> body_position (robot_bodies robot' ! 2) = (4, 5, 6)"
proof -
  have axes: "\<forall>b \<in> set (robot_bodies demo_robot).
                isRevolute b \<or> isPrismatic b \<longrightarrow> jointAxis b \<noteq> None"
    by (simp add: demo_robot_def isRevolute_iff isPrismatic_iff)
  have unit: "\<forall>p. premultiply int_three (quat_identity int_three) p = p"
    by (auto simp: int_three_def)
  have zero: "\<forall>v. vec_add int_three (vec_zero int_three) v = v"
    by (auto simp: int_three_def)
  have comm: "\<forall>u v. vec_add int_three u v = vec_add int_three v u"
    by (auto simp: int_three_def)
  from updateQ_local_pose [OF axes unit zero comm, of "[3, 4, 5]"] obtain robot' where
    r: "updateQ int_three demo_robot [3, 4, 5] = Inr (robot', True)" and
    p: "\<forall>i < length (robot_bodies demo_robot).
                body_quaternion (robot_bodies robot' ! i)
                  = (if isRevolute (robot_bodies demo_robot ! i)
                     then premultiply int_three
                            (setFromAxisAngle int_three (the (jointAxis (robot_bodies demo_robot ! i)))
                               (q_at [3, 4, 5] i))
                            (rest_quaternion (robot_bodies demo_robot ! i))
                     else rest_quaternion (robot_bodies demo_robot ! i))
                \<and> body_position (robot_bodies robot' ! i)
                  = (if isPrismatic (robot_bodies demo_robot ! i)
                     then vec_add int_three (rest_position (robot_bodies demo_robot ! i))
                            (multiplyScalar int_three (the (jointAxis (robot_bodies demo_robot ! i)))
                               (q_at [3, 4, 5] i))
                     else rest_position (robot_bodies demo_robot ! i))"
    by blast
  have "body_quaternion (robot_bodies robot' ! 0) = (0, 0, 3, 1)
        \<and> body_position (robot_bodies robot' ! 0) = (0, 0, 0)"
    using p [rule_format, of 0]
    by (simp add: demo_robot_def isRevolute_iff isPrismatic_iff int_three_def q_at_def)
  moreover have "body_quaternion (robot_bodies robot' ! 1) = (0, 0, 0, 1)
        \<and> body_position (robot_bodies robot' ! 1) = (5, 2, 3)"
    using p [rule_format, of 1]
    by (simp add: demo_robot_def isRevolute_iff isPrismatic_iff int_three_def q_at_def)
  moreover have "body_quaternion (robot_bodies robot' ! 2) = (0, 1, 0, 0)
        \<and> body_position (robot_bodies robot' ! 2) = (4, 5, 6)"
    using p [rule_format, of 2]
    by (simp add: demo_robot_def isRevolute_iff isPrismatic_iff int_three_def q_at_def)
  ultimately show ?thesis using r by blast
qed

section \<open>Properties of the point-cloud reprojector\<close>

lemma upt_3: "[0..<3] = [0, 1, 2]"
  by (simp add: upt_rec)

lemma writePoint_fits:
  assumes "length p = 3" and "3 * idx + 3 \<le> length buffer"
  shows "writePoint buffer idx p = take (3 * idx) buffer @ p @ drop (3 * idx + 3) buffer"
proof -
  from assms(1) obtain a b c where p: "p = [a, b, c]"
    by (cases p; simp; rename_tac x xs; case_tac xs; simp; rename_tac y ys; case_tac ys; simp)
  show ?thesis
    unfolding p writePoint_def upt_3 using assms(2)
    by (intro nth_equalityI) (auto simp: nth_append nth_list_update min_def nth_Cons' split: if_splits)
qed

lemma length_writePoint [simp]: "length (writePoint buffer idx p) = length buffer"
  by (simp add: writePoint_def upt_3)

lemma writePoints_fits:
  assumes "\<forall>p \<in> set ps. length p = 3" and "3 * (idx + length ps) \<le> length buffer"
  shows "writePoints buffer idx ps
         = take (3 * idx) buffer @ concat ps @ drop (3 * (idx + length ps)) buffer"
  using assms
proof (induction ps arbitrary: buffer idx)
  case Nil
  then show ?case by simp
next
  case (Cons p ps)
  let ?b = "writePoint buffer idx p"
  from Cons.prems have lp: "length p = 3" and fit: "3 * idx + 3 \<le> length buffer" by auto
  have wb: "?b = take (3 * idx) buffer @ p @ drop (3 * idx + 3) buffer"
    by (rule writePoint_fits [OF lp fit])
  have ih: "writePoints ?b (Suc idx) ps
            = take (3 * Suc idx) ?b @ concat ps @ drop (3 * (Suc idx + length ps)) ?b"
    using Cons.prems by (intro Cons.IH) auto
  have t: "take (3 * Suc idx) ?b = take (3 * idx) buffer @ p"
    unfolding wb using lp fit by (simp add: min_def)
  have d: "drop (3 * (Suc idx + length ps)) ?b = drop (3 * (idx + length (p # ps))) buffer"
  proof -
    have e: "3 * length ps + (3 * idx + 3) = 3 + (3 * idx + 3 * length ps)" by simp
    show ?thesis
      unfolding wb using lp fit by (simp add: min_def e)
  qed
  show ?case
    by (simp only: writePoints.simps ih t d concat.simps append_assoc)
qed


lemma writePoints_append:
  "writePoints buffer idx (ps @ qs) = writePoints (writePoints buffer idx ps) (idx + length ps) qs"
  by (induction ps arbitrary: buffer idx) simp_all

lemma length_backProject [simp]: "length (backProject ar K numRows y x d) = 3"
  by (simp add: backProject_def)

lemma length_emittedPoint [simp]: "length (emittedPoint ar K img numRows numCols p) = 3"
  by (cases p) (simp add: emittedPoint_def)

lemma pointsPixel_step:
  "pointsPixel ar K numRows numCols img y (buffer, idx) x
   = (if x mod DOWNSCALE_FACTOR = 0 \<and> emitsPoint ar img numCols (y, x)
      then (writePoint buffer idx (emittedPoint ar K img numRows numCols (y, x)), Suc idx)
      else (buffer, idx))"
  by (auto simp: pointsPixel_def emitsPoint_def emittedPoint_def depthAt_def writePoint_def
      store_def upt_3 backProject_def split: option.splits)

lemma pointsPixel_fold:
  "foldl (pointsPixel ar K numRows numCols img y) (buffer, idx) xs
   = (writePoints buffer idx
        (map (emittedPoint ar K img numRows numCols)
           (filter (emitsPoint ar img numCols)
              (map (Pair y) (filter (\<lambda>x. x mod DOWNSCALE_FACTOR = 0) xs)))),
      idx + length (filter (emitsPoint ar img numCols)
                      (map (Pair y) (filter (\<lambda>x. x mod DOWNSCALE_FACTOR = 0) xs))))"
proof (induction xs arbitrary: buffer idx)
  case Nil
  then show ?case by simp
next
  case (Cons x xs)
  show ?case
    by (simp only: foldl_Cons pointsPixel_step) (simp add: Cons.IH)
qed

lemma pointsRow_fold:
  "foldl (pointsRow ar K numRows numCols img) (buffer, idx) ys
   = (writePoints buffer idx
        (map (emittedPoint ar K img numRows numCols)
           (filter (emitsPoint ar img numCols)
              (concat (map (\<lambda>y. map (Pair y) (filter (\<lambda>x. x mod DOWNSCALE_FACTOR = 0) [0..<numCols]))
                         (filter (\<lambda>y. y mod DOWNSCALE_FACTOR = 0) ys))))),
      idx + length (filter (emitsPoint ar img numCols)
              (concat (map (\<lambda>y. map (Pair y) (filter (\<lambda>x. x mod DOWNSCALE_FACTOR = 0) [0..<numCols]))
                         (filter (\<lambda>y. y mod DOWNSCALE_FACTOR = 0) ys)))))"
proof (induction ys arbitrary: buffer idx)
  case Nil
  then show ?case by simp
next
  case (Cons y ys)
  let ?Ey = "filter (emitsPoint ar img numCols)
               (map (Pair y) (filter (\<lambda>x. x mod DOWNSCALE_FACTOR = 0) [0..<numCols]))"
  show ?case
  proof (cases "y mod DOWNSCALE_FACTOR = 0")
    case True
    have step: "pointsRow ar K numRows numCols img (buffer, idx) y
                = (writePoints buffer idx (map (emittedPoint ar K img numRows numCols) ?Ey),
                   idx + length ?Ey)"
      using True by (simp add: pointsRow_def pointsPixel_fold)
    show ?thesis
      unfolding foldl_Cons step Cons.IH using True
      by (simp add: writePoints_append add.assoc)
  next
    case False
    have step: "pointsRow ar K numRows numCols img (buffer, idx) y = (buffer, idx)"
      using False by (simp add: pointsRow_def)
    show ?thesis
      unfolding foldl_Cons step Cons.IH using False by simp
  qed
qed


lemma sampledPixels_filter:
  "sampledPixels numRows numCols
   = concat (map (\<lambda>y. map (Pair y) (filter (\<lambda>x. x mod DOWNSCALE_FACTOR = 0) [0..<numCols]))
               (filter (\<lambda>y. y mod DOWNSCALE_FACTOR = 0) [0..<numRows]))"
proof -
  have cols: "\<And>y xs. concat (map (\<lambda>x. if x mod DOWNSCALE_FACTOR = 0 then [(y, x)] else []) xs)
              = map (Pair y) (filter (\<lambda>x. x mod DOWNSCALE_FACTOR = 0) xs)"
    subgoal for y xs by (induction xs) simp_all
    done
  have rows: "\<And>ys. concat (map (\<lambda>y. if y mod DOWNSCALE_FACTOR = 0
                     then map (Pair y) (filter (\<lambda>x. x mod DOWNSCALE_FACTOR = 0) [0..<numCols])
                     else []) ys)
              = concat (map (\<lambda>y. map (Pair y) (filter (\<lambda>x. x mod DOWNSCALE_FACTOR = 0) [0..<numCols]))
                   (filter (\<lambda>y. y mod DOWNSCALE_FACTOR = 0) ys))"
    subgoal for ys by (induction ys) simp_all
    done
  show ?thesis
    unfolding sampledPixels_def by (simp only: cols rows)
qed

lemma length_writePoints [simp]: "length (writePoints buffer idx ps) = length buffer"
  by (induction ps arbitrary: buffer idx) simp_all

lemma upt_4: "[0..<4] = [0, 1, 2, 3]"
  by (simp add: upt_rec)

lemma upt_2: "[0..<2] = [0, 1]"
  by (simp add: upt_rec)

lemma replicate_3: "replicate 3 x = [x, x, x]"
  by (simp add: numeral_3_eq_3)

lemmas ideal_arith_defs =
  ideal_arith_def js_div_def js_mul_def js_sub_def inf_of_def sign_of_def

text \<open>
  Claim C4, as amended. The downscale factor is the module constant 2. For a camera with a
  depth image, an intrinsic matrix and its two arrays, \<^verbatim>\<open>renderPointCloud\<close> returns \<^verbatim>\<open>true\<close>.
  It visits the pixels whose row and column are multiples of 2, row by row, and emits a
  point for exactly those whose depth \<open>d = raw / 1000\<close> passes the code's test, \<open>d\<close> is not
  \<^verbatim>\<open>NaN\<close> and not \<open>d \<le> 0\<close> (a positive number, \<open>+Infinity\<close> included); the others are
  skipped. The draw range becomes \<open>(0, count)\<close> for the number of emitted points. When the
  position array has room for them, its first \<open>3 * count\<close> entries are the emitted points in
  raster order and the rest of the array is as before. The point of pixel \<open>(row, col)\<close> is
  \<open>d * (col - K[0][2]) / K[0][0]\<close>, \<open>d * ((numRows - row) - K[1][2]) / K[1][1]\<close>, \<open>d\<close>, each
  rounded by the store into the \<^verbatim>\<open>Float32Array\<close>.
\<close>

theorem renderPointCloud_emits:
  assumes "depthImage camera = Some img" and "intrinsic camera = Some K"
    and "depthDim camera = (numRows, numCols, numChannels)"
    and "points_position camera = Some buffer" and "points_color camera = Some colorBuffer"
  shows "\<exists>camera' buffer'.
           renderPointCloud ar camera = Inr (camera', True)
         \<and> points_position camera' = Some buffer'
         \<and> length buffer' = length buffer
         \<and> points_drawRange camera'
             = (0, length (filter (emitsPoint ar img numCols) (sampledPixels numRows numCols)))
         \<and> (3 * length (filter (emitsPoint ar img numCols) (sampledPixels numRows numCols))
               \<le> length buffer \<longrightarrow>
              take (3 * length (filter (emitsPoint ar img numCols) (sampledPixels numRows numCols)))
                buffer'
              = concat (map (emittedPoint ar K img numRows numCols)
                          (filter (emitsPoint ar img numCols) (sampledPixels numRows numCols)))
            \<and> drop (3 * length (filter (emitsPoint ar img numCols) (sampledPixels numRows numCols)))
                buffer'
              = drop (3 * length (filter (emitsPoint ar img numCols)
                                    (sampledPixels numRows numCols))) buffer)
         \<and> (\<forall>y x. emittedPoint ar K img numRows numCols (y, x)
               = (let d = fdiv ar (img ! (numCols * y + x)) (num ar 1000) in
                  [fround ar (fdiv ar (fmul ar d (fsub ar (num ar (int x)) (k02 K))) (k00 K)),
                   fround ar (fdiv ar (fmul ar d (fsub ar (num ar (int numRows - int y)) (k12 K)))
                                (k11 K)),
                   fround ar d]))"
proof -
  let ?E = "filter (emitsPoint ar img numCols) (sampledPixels numRows numCols)"
  let ?pts = "map (emittedPoint ar K img numRows numCols) ?E"
  let ?buffer' = "writePoints buffer 0 ?pts"
  have loop: "foldl (pointsRow ar K numRows numCols img) (buffer, 0) [0..<numRows]
              = (?buffer', length ?E)"
    by (simp add: pointsRow_fold sampledPixels_filter)
  have "\<exists>camera'. renderPointCloud ar camera = Inr (camera', True)
          \<and> points_position camera' = Some ?buffer'
          \<and> points_drawRange camera' = (0, length ?E)"
    using assms by (auto simp: renderPointCloud_def loop Let_def split: prod.splits)
  then obtain camera' where r: "renderPointCloud ar camera = Inr (camera', True)"
    and pp: "points_position camera' = Some ?buffer'"
    and dr: "points_drawRange camera' = (0, length ?E)"
    by blast
  have pts3: "\<forall>p \<in> set ?pts. length p = 3" by auto
  have fits: "take (3 * length ?E) ?buffer' = concat ?pts
              \<and> drop (3 * length ?E) ?buffer' = drop (3 * length ?E) buffer"
    if "3 * length ?E \<le> length buffer"
  proof -
    have w: "?buffer' = take (3 * 0) buffer @ concat ?pts @ drop (3 * (0 + length ?pts)) buffer"
      by (rule writePoints_fits [OF pts3]) (use that in simp)
    have lc: "length (concat ?pts) = 3 * length ?E"
      by (induction ?E) (simp_all add: length_concat o_def sum_list_triv)
    show ?thesis
      using w lc by simp
  qed
  have formula: "\<forall>y x. emittedPoint ar K img numRows numCols (y, x)
               = (let d = fdiv ar (img ! (numCols * y + x)) (num ar 1000) in
                  [fround ar (fdiv ar (fmul ar d (fsub ar (num ar (int x)) (k02 K))) (k00 K)),
                   fround ar (fdiv ar (fmul ar d (fsub ar (num ar (int numRows - int y)) (k12 K)))
                                (k11 K)),
                   fround ar d])"
    by (simp add: emittedPoint_def backProject_def Let_def)
  from r pp dr fits formula show ?thesis
    by (intro exI [of _ camera'] exI [of _ ?buffer']) simp
qed


theorem renderPointCloud_emits_witness:
  "\<exists>camera' buffer'.
     renderPointCloud ideal_arith
       (demo_camera [Fin 1000, Fin 5, Fin 0, Fin 5,
                     Fin 7, Fin 7, Fin 7, Fin 7,
                     NaN, Fin 3, Fin 2000, Fin 9,
                     Fin 7, Fin 7, Fin 7, Fin 7] (4, 4, 1) 12) = Inr (camera', True)
     \<and> points_position camera' = Some buffer'
     \<and> points_drawRange camera' = (0, 2)
     \<and> take 6 buffer' = [Fin 0, Fin 4, Fin 1, Fin 4, Fin 4, Fin 2]
     \<and> drop 6 buffer' = replicate 6 (Fin 0)"
proof -
  let ?img = "[Fin 1000, Fin 5, Fin 0, Fin 5,
               Fin 7, Fin 7, Fin 7, Fin 7,
               NaN, Fin 3, Fin 2000, Fin 9,
               Fin 7, Fin 7, Fin 7, Fin 7]"
  let ?cam = "demo_camera ?img (4, 4, 1) 12"
  have E: "filter (emitsPoint ideal_arith ?img 4) (sampledPixels 4 4) = [(0, 0), (2, 2)]"
    by (simp add: sampledPixels_def upt_4 DOWNSCALE_FACTOR_def emitsPoint_def depthAt_def
        ideal_arith_defs)
  have P: "map (emittedPoint ideal_arith demo_intrinsic ?img 4 4) [(0, 0), (2, 2)]
           = [[Fin 0, Fin 4, Fin 1], [Fin 4, Fin 4, Fin 2]]"
    by (simp add: emittedPoint_def backProject_def demo_intrinsic_def ideal_arith_defs)
  from renderPointCloud_emits [of ?cam ?img demo_intrinsic 4 4 1 "replicate 12 (Fin 0)"
      "replicate 12 (Fin 1)" ideal_arith]
  obtain camera' buffer' where
    r: "renderPointCloud ideal_arith ?cam = Inr (camera', True)"
      "points_position camera' = Some buffer'"
      "points_drawRange camera'
         = (0, length (filter (emitsPoint ideal_arith ?img 4) (sampledPixels 4 4)))"
      "3 * length (filter (emitsPoint ideal_arith ?img 4) (sampledPixels 4 4))
         \<le> length (replicate 12 (Fin 0 :: jsnum)) \<longrightarrow>
       take (3 * length (filter (emitsPoint ideal_arith ?img 4) (sampledPixels 4 4))) buffer'
         = concat (map (emittedPoint ideal_arith demo_intrinsic ?img 4 4)
                     (filter (emitsPoint ideal_arith ?img 4) (sampledPixels 4 4)))
       \<and> drop (3 * length (filter (emitsPoint ideal_arith ?img 4) (sampledPixels 4 4))) buffer'
         = drop (3 * length (filter (emitsPoint ideal_arith ?img 4) (sampledPixels 4 4)))
             (replicate 12 (Fin 0))"
    by (auto simp: demo_camera_def Camera_create_def)
  from r(3,4) have "points_drawRange camera' = (0, 2)
     \<and> take 6 buffer' = [Fin 0, Fin 4, Fin 1, Fin 4, Fin 4, Fin 2]
     \<and> drop 6 buffer' = replicate 6 (Fin 0)"
    unfolding E P by simp
  with r(1,2) show ?thesis by blast
qed

text \<open>
  Claim C4 as stated skips every pixel whose depth is not a finite positive number. The
  code skips on \<^verbatim>\<open>isNaN(d) || d <= 0\<close>, which lets \<open>+Infinity\<close> through: for the 2 by 2 depth
  image below, an array of three floats and the intrinsic matrix with unit focal lengths,
  the one sampled pixel has an infinite depth and is emitted.
\<close>

theorem renderPointCloud_emits_infinite_depth:
  "depthAt ideal_arith [PosInf, Fin 1000, Fin 1000, Fin 1000] (2 * 0 + 0) = Some PosInf
   \<and> \<not> isFinite PosInf
   \<and> renderPointCloud ideal_arith
       (demo_camera [PosInf, Fin 1000, Fin 1000, Fin 1000] (2, 2, 1) 3)
     = Inr ((demo_camera [PosInf, Fin 1000, Fin 1000, Fin 1000] (2, 2, 1) 3)
              \<lparr>points_position := Some [NaN, PosInf, PosInf], points_drawRange := (0, 1)\<rparr>,
            True)"
  by (simp add: renderPointCloud_def demo_camera_def Camera_create_def pointsRow_def
      pointsPixel_def upt_2 DOWNSCALE_FACTOR_def depthAt_def backProject_def store_def
      demo_intrinsic_def isFinite_def ideal_arith_defs replicate_3)

section \<open>Properties of the simulator\<close>

text \<open>
  The definitions unfolded to run the simulator on the instance.
\<close>

lemmas js_object_defs =
  js_set_def js_in_def js_get_def js_delete_def isArrayIndex_def isDigit_def digitsValue_def
  objectPrototypeNames_def ascii_def

lemmas sim_defs =
  handleBatch_def parseUpdateKeys_def parseDeleteKeys_def tryModelParsers_def
  parseCameraModel_def parseObjectModel_def parseRobotModel_def parseTrajectoryModel_def
  parseModel_def addComponentToScene_def registerRedisUpdateCallback_def
  unregisterRedisUpdateCallback_def invokeCallback_def updateDepthImage_def
  updateColorImage_def updateIntrinsic_def isModelKey_def fieldKey_def components_def
  setComponents_def andThen_def stateOf_def toValue_def argsNamespace_def KEY_ARGS_def
  startsWith_def objectOf_def withObject_def toPropertyKey_def callIfFormExists_def
  sceneRemove_def

lemmas demo_defs =
  demo_env_def demo_args_def demo_models_def demo_configured_def initial_def updates_def
  deletes_def Camera_create_def ideal_arith_def

subsection \<open>The states of the sessions\<close>

lemma camera_created_eq:
  "camera_created
   = demo_configured
       \<lparr>store_of := [Cam 0 (Camera_create ideal_arith)],
        scene := [0],
        cameras := [(ascii ''cam::C'', 0)],
        redisUpdateCallbacks :=
          [(ascii ''d'', [(ascii ''cam::C'', (0, CameraUpdateDepthImage))])],
        forms := forms demo_configured @ [(ascii ''cam::C'', Some (VString (ascii ''C1'')))],
        renders := 1\<rparr>"
  unfolding camera_created_def
  by (simp add: sim_defs demo_defs js_object_defs)

lemma trajectory_created_eq:
  "trajectory_created
   = demo_configured
       \<lparr>store_of := [Plain 0],
        scene := [0],
        trajectories := [(ascii ''traj::T'', 0)],
        redisUpdateCallbacks :=
          [(ascii ''a'', [(ascii ''traj::T'', (0, TrajectoryAppendPosition))])],
        forms := forms demo_configured @ [(ascii ''traj::T'', Some (VString (ascii ''M1'')))],
        renders := 1\<rparr>"
  unfolding trajectory_created_def
  by (simp add: sim_defs demo_defs js_object_defs)

lemma robot_created_eq:
  "robot_created
   = demo_configured
       \<lparr>store_of := [Plain 0],
        scene := [0],
        robots := [(ascii ''rob::R'', 0)],
        redisUpdateCallbacks :=
          [(ascii ''a'', [(ascii ''rob::R'', (0, RobotUpdatePosition))])],
        forms := forms demo_configured @ [(ascii ''rob::R'', Some (VString (ascii ''M1'')))],
        renders := 1,
        pending := [Loaded Robot (ascii ''rob::R'') 0]\<rparr>"
  unfolding robot_created_def
  by (simp add: sim_defs demo_defs js_object_defs)

lemma object_replaced_eq:
  "object_replaced
   = demo_configured
       \<lparr>store_of := [Plain 0, Plain 0],
        scene := [1],
        objects := [(ascii ''obj::K'', 1)],
        redisUpdateCallbacks :=
          [(ascii ''a'', [(ascii ''obj::K'', (0, ObjectUpdatePosition))]),
           (ascii ''b'', [(ascii ''obj::K'', (1, ObjectUpdatePosition))])],
        forms := forms demo_configured @ [(ascii ''obj::K'', Some (VString (ascii ''M2'')))],
        renders := 2,
        pending := [Loaded GraphicsObject (ascii ''obj::K'') 0,
                    Loaded GraphicsObject (ascii ''obj::K'') 1]\<rparr>"
  unfolding object_replaced_def
  by (simp add: sim_defs demo_defs js_object_defs)

lemma camera_replaced_eq:
  "camera_replaced
   = demo_configured
       \<lparr>store_of := [Cam 0 (Camera_create ideal_arith), Cam 0 (Camera_create ideal_arith)],
        scene := [1],
        cameras := [(ascii ''cam::C'', 1)],
        redisUpdateCallbacks :=
          [(ascii ''d'', [(ascii ''cam::C'', (0, CameraUpdateDepthImage))]),
           (ascii ''e'', [(ascii ''cam::C'', (1, CameraUpdateDepthImage))])],
        forms := forms demo_configured
                 @ [(ascii ''cam::C'', Some (VString (ascii ''C2''))), (ascii ''d'', None)],
        renders := 2,
        updatingDepth := True,
        pending := [DepthDecoded 0 [Fin 5, Fin 6] (1, 2, 1)],
        invoked := [(ascii ''d'', ascii ''cam::C'', False)]\<rparr>"
  unfolding camera_replaced_def
  by (simp add: sim_defs demo_defs js_object_defs)

lemma live_camera_created: "live camera_created 0"
  by (simp add: camera_created_eq live_def)

lemma live_trajectory_created: "live trajectory_created 0"
  by (simp add: trajectory_created_eq live_def)

lemma handleBatch_delete_camera:
  "handleBatch demo_env camera_created (deletes [''cam::C''])
   = Returned (camera_created\<lparr>forms := forms demo_configured\<rparr>) ()"
  unfolding camera_created_eq by (simp add: sim_defs demo_defs js_object_defs Let_def)

lemma handleBatch_delete_trajectory:
  "handleBatch demo_env trajectory_created (deletes [''traj::T''])
   = Returned (trajectory_created\<lparr>forms := forms demo_configured\<rparr>) ()"
  unfolding trajectory_created_eq by (simp add: sim_defs demo_defs js_object_defs Let_def)

lemma handleBatch_delete_robot:
  "handleBatch demo_env robot_created (deletes [''rob::R''])
   = Returned (robot_created\<lparr>scene := [], robots := [],
                              redisUpdateCallbacks := [(ascii ''a'', [])],
                              forms := forms demo_configured, renders := 2\<rparr>) ()"
  unfolding robot_created_eq by (simp add: sim_defs demo_defs js_object_defs Let_def)

lemma handleBatch_update_old_key:
  "handleBatch demo_env object_replaced (updates [(''a'', Text (ascii ''1 2 3''))])
   = Returned (object_replaced
                 \<lparr>store_of := [Plain 1, Plain 0],
                  forms := forms object_replaced
                           @ [(ascii ''a'', Some (VMatrix [[ascii ''1'', ascii ''2'', ascii ''3'']]))],
                  renders := 3,
                  invoked := [(ascii ''a'', ascii ''obj::K'', True)]\<rparr>) ()"
  unfolding object_replaced_eq
  by (simp add: sim_defs demo_defs js_object_defs stringToMatrix_def trim_def isSpace_def)

lemma handleBatch_delete_inherited:
  "handleBatch demo_env robot_created (deletes [''toString''])
   = Returned (robot_created\<lparr>renders := 2\<rparr>) ()"
  unfolding robot_created_eq by (simp add: sim_defs demo_defs js_object_defs Let_def)

lemma parseArgs_update_old_key:
  "parseArgs demo_env object_replaced (toUpdate (updates [(''a'', Text (ascii ''1 2 3''))]))
   = Returned object_replaced ()"
  by (simp add: updates_def argsNamespace_def KEY_ARGS_def startsWith_def ascii_def)

lemma parseModels_update_old_key:
  "parseModels demo_env object_replaced (toUpdate (updates [(''a'', Text (ascii ''1 2 3''))]))
   = object_replaced"
  unfolding object_replaced_eq
  by (simp add: sim_defs demo_defs js_object_defs)

subsection \<open>Renders and invoked handlers of a batch\<close>

lemma andThen_Returned:
  assumes "andThen m f = Returned s b"
  obtains s0 a where "m = Returned s0 a" and "f s0 a = Returned s b"
  using assms by (cases m) (simp_all add: andThen_def)

lemma invokeCallback_frame:
  assumes "invokeCallback e st h val = Returned st1 r"
  shows "renders st1 = renders st \<and> robots st1 = robots st \<and> objects st1 = objects st
         \<and> invoked st1 = invoked st"
proof -
  obtain component cb where h: "h = (component, cb)" by (cases h)
  consider (depth) "cb = CameraUpdateDepthImage" | (color) "cb = CameraUpdateColorImage"
    | (intr) "cb = CameraUpdateIntrinsic"
    | (other) "cb \<noteq> CameraUpdateDepthImage" "cb \<noteq> CameraUpdateColorImage"
        "cb \<noteq> CameraUpdateIntrinsic"
    by blast
  then show ?thesis
  proof cases
    case depth
    with assms h show ?thesis
      by (auto simp: invokeCallback_def updateDepthImage_def
          split: redis_value.splits if_splits option.splits prod.splits)
  next
    case color
    with assms h show ?thesis
      by (auto simp: invokeCallback_def updateColorImage_def
          split: redis_value.splits if_splits option.splits prod.splits)
  next
    case intr
    with assms h show ?thesis
      by (auto simp: invokeCallback_def updateIntrinsic_def setCamera_def
          split: option.splits if_splits prod.splits sum.splits)
  next
    case other
    with assms h show ?thesis
      by (auto simp: invokeCallback_def Let_def split: if_splits prod.splits option.splits)
  qed
qed

lemma callAll_log:
  assumes "callAll e st key val renderFrame entry = Returned st1 renderFrame1"
  shows "\<exists>log. invoked st1 = invoked st @ log
           \<and> renderFrame1 = (renderFrame \<or> (\<exists>x \<in> set log. snd (snd x)))
           \<and> renders st1 = renders st \<and> robots st1 = robots st \<and> objects st1 = objects st"
  using assms
proof (induction entry arbitrary: st renderFrame)
  case Nil
  then show ?case by simp
next
  case (Cons kc entry)
  obtain keyComponent updateCallback where kc: "kc = (keyComponent, updateCallback)"
    by (cases kc)
  from Cons.prems kc obtain sa r where
    inv: "invokeCallback e st updateCallback val = Returned sa r" and
    rest: "callAll e (sa\<lparr>invoked := invoked sa @ [(key, keyComponent, r)]\<rparr>) key val
             (r \<or> renderFrame) entry = Returned st1 renderFrame1"
    by (auto elim!: andThen_Returned)
  from invokeCallback_frame [OF inv] have fr:
    "renders sa = renders st" "robots sa = robots st" "objects sa = objects st"
    "invoked sa = invoked st" by simp_all
  from Cons.IH [OF rest] obtain log where
    log: "invoked st1 = invoked (sa\<lparr>invoked := invoked sa @ [(key, keyComponent, r)]\<rparr>) @ log"
      "renderFrame1 = ((r \<or> renderFrame) \<or> (\<exists>x \<in> set log. snd (snd x)))"
      "renders st1 = renders sa" "robots st1 = robots sa" "objects st1 = objects sa"
    by auto
  show ?case
  proof (intro exI [of _ "(key, keyComponent, r) # log"] conjI)
    show "invoked st1 = invoked st @ (key, keyComponent, r) # log"
      using log(1) fr(4) by simp
    show "renderFrame1 = (renderFrame \<or> (\<exists>x \<in> set ((key, keyComponent, r) # log). snd (snd x)))"
      using log(2) by auto
  qed (use log fr in simp_all)
qed

lemma updateKeysLoop_log:
  assumes "updateKeysLoop e st renderFrame keyVals = Returned st1 renderFrame1"
  shows "\<exists>log. invoked st1 = invoked st @ log
           \<and> renderFrame1 = (renderFrame \<or> (\<exists>x \<in> set log. snd (snd x)))
           \<and> renders st1 = renders st \<and> robots st1 = robots st \<and> objects st1 = objects st"
  using assms
proof (induction keyVals arbitrary: st renderFrame)
  case Nil
  then show ?case by simp
next
  case (Cons kv keyVals)
  obtain key p where kv: "kv = (key, p)" by (cases kv)
  let ?val = "toValue e p"
  let ?entry = "case js_get (redisUpdateCallbacks st) key of None \<Rightarrow> [] | Some entry \<Rightarrow> entry"
  let ?call = "if js_in key (redisUpdateCallbacks st)
               then callAll e st key ?val renderFrame ?entry
               else Returned st renderFrame"
  from Cons.prems kv obtain sa ra where
    call: "?call = Returned sa ra" and
    rest: "updateKeysLoop e
             (sa\<lparr>forms := updateForm e (forms sa) key
                              (case ?val of VBinary _ \<Rightarrow> None | _ \<Rightarrow> Some ?val)\<rparr>)
             ra keyVals = Returned st1 renderFrame1"
    by (auto simp: Let_def elim!: andThen_Returned)
  have first: "\<exists>log. invoked sa = invoked st @ log
           \<and> ra = (renderFrame \<or> (\<exists>x \<in> set log. snd (snd x)))
           \<and> renders sa = renders st \<and> robots sa = robots st \<and> objects sa = objects st"
  proof (cases "js_in key (redisUpdateCallbacks st)")
    case False
    with call show ?thesis by simp
  next
    case True
    with call have "callAll e st key ?val renderFrame ?entry = Returned sa ra" by simp
    then show ?thesis by (rule callAll_log)
  qed
  then obtain log1 where
    l1: "invoked sa = invoked st @ log1" "ra = (renderFrame \<or> (\<exists>x \<in> set log1. snd (snd x)))"
      "renders sa = renders st" "robots sa = robots st" "objects sa = objects st"
    by blast
  from Cons.IH [OF rest] obtain log2 where
    l2: "invoked st1 = invoked sa @ log2" "renderFrame1 = (ra \<or> (\<exists>x \<in> set log2. snd (snd x)))"
      "renders st1 = renders sa" "robots st1 = robots sa" "objects st1 = objects sa"
    by auto
  show ?case
  proof (intro exI [of _ "log1 @ log2"] conjI)
    show "invoked st1 = invoked st @ log1 @ log2" using l1(1) l2(1) by simp
    show "renderFrame1 = (renderFrame \<or> (\<exists>x \<in> set (log1 @ log2). snd (snd x)))"
      using l1(2) l2(2) by auto
  qed (use l1 l2 in simp_all)
qed

lemma unregisterRedisUpdateCallback_frame:
  assumes "unregisterRedisUpdateCallback st keyComponent = Returned st1 u"
  shows "renders st1 = renders st \<and> invoked st1 = invoked st"
  using assms by (auto simp: unregisterRedisUpdateCallback_def split: if_splits)

lemma deleteKeysLoop_frame:
  assumes "deleteKeysLoop e st renderFrame keys = Returned st1 renderFrame1"
  shows "renders st1 = renders st \<and> invoked st1 = invoked st"
  using assms
proof (induction keys arbitrary: st renderFrame)
  case Nil
  then show ?case by simp
next
  case (Cons k keys)
  let ?key = "toPropertyKey k"
  from Cons.prems obtain sa ra where
    step: "(if js_in ?key (robots st) then
              andThen
                (unregisterRedisUpdateCallback
                   (st\<lparr>scene := sceneRemove (js_get (robots st) ?key) (scene st),
                       robots := js_delete (robots st) ?key\<rparr>) ?key)
                (\<lambda>st1 _. Returned st1 True)
            else if js_in ?key (objects st) then
              andThen
                (unregisterRedisUpdateCallback
                   (st\<lparr>scene := sceneRemove (js_get (objects st) ?key) (scene st),
                       objects := js_delete (objects st) ?key\<rparr>) ?key)
                (\<lambda>st1 _. Returned st1 True)
            else Returned st renderFrame) = Returned sa ra" and
    rest: "deleteKeysLoop e (sa\<lparr>forms := deleteForm e (forms sa) ?key\<rparr>) ra keys
           = Returned st1 renderFrame1"
    by (auto simp: Let_def elim!: andThen_Returned)
  from step have "renders sa = renders st \<and> invoked sa = invoked st"
    by (auto split: if_splits elim!: andThen_Returned
        dest!: unregisterRedisUpdateCallback_frame)
  with Cons.IH [OF rest] show ?case by simp
qed

lemma deleteKeysLoop_True:
  assumes "deleteKeysLoop e st True keys = Returned st1 renderFrame1"
  shows "renderFrame1"
  using assms
proof (induction keys arbitrary: st)
  case Nil
  then show ?case by simp
next
  case (Cons k keys)
  from Cons.prems obtain sa where
    "deleteKeysLoop e (sa\<lparr>forms := deleteForm e (forms sa) (toPropertyKey k)\<rparr>) True keys
     = Returned st1 renderFrame1"
    by (auto simp: Let_def split: if_splits elim!: andThen_Returned)
  then show ?case by (rule Cons.IH)
qed

lemma deleteKeysLoop_flag:
  assumes "deleteKeysLoop e st renderFrame keys = Returned st1 renderFrame1"
  shows "renderFrame1
         = (renderFrame \<or> (\<exists>k \<in> set keys. js_in (toPropertyKey k) (robots st)
                                         \<or> js_in (toPropertyKey k) (objects st)))"
  using assms
proof (induction keys arbitrary: st renderFrame)
  case Nil
  then show ?case by simp
next
  case (Cons k keys)
  let ?key = "toPropertyKey k"
  show ?case
  proof (cases "js_in ?key (robots st) \<or> js_in ?key (objects st)")
    case True
    with Cons.prems obtain sa where
      "deleteKeysLoop e (sa\<lparr>forms := deleteForm e (forms sa) ?key\<rparr>) True keys
       = Returned st1 renderFrame1"
      by (auto simp: Let_def split: if_splits elim!: andThen_Returned)
    then have "renderFrame1" by (rule deleteKeysLoop_True)
    with True show ?thesis by auto
  next
    case False
    with Cons.prems have
      rest: "deleteKeysLoop e (st\<lparr>forms := deleteForm e (forms st) ?key\<rparr>) renderFrame keys
             = Returned st1 renderFrame1"
      by (auto simp: Let_def elim!: andThen_Returned)
    from Cons.IH [OF rest] False show ?thesis by auto
  qed
qed

subsection \<open>The claims\<close>

text \<open>
  Claim C10. A value that is not a binary blob, given to the depth-image or to the
  colour-image callback of a camera, directly or through the registry's closure, makes the
  callback return \<^verbatim>\<open>false\<close> at once: the whole state comes back as it was, so no decode is
  started and the camera's images, dimensions and intrinsic matrix are untouched.
\<close>

theorem image_callbacks_ignore_non_binary:
  assumes "\<forall>bytes. opencv_mat \<noteq> VBinary bytes"
  shows "updateDepthImage e st camera opencv_mat = Returned st False
       \<and> updateColorImage e st camera opencv_mat = Returned st False
       \<and> invokeCallback e st (camera, CameraUpdateDepthImage) opencv_mat = Returned st False
       \<and> invokeCallback e st (camera, CameraUpdateColorImage) opencv_mat = Returned st False"
  using assms
  by (cases opencv_mat) (simp_all add: updateDepthImage_def updateColorImage_def invokeCallback_def)

theorem image_callbacks_ignore_non_binary_witness:
  "updateDepthImage demo_env camera_created 0 (VString (ascii ''hello''))
     = Returned camera_created False
   \<and> updateColorImage demo_env camera_created 0 (VMatrix [[ascii ''1'', ascii ''2'']])
     = Returned camera_created False"
proof -
  have a: "\<forall>bytes. VString (ascii ''hello'') \<noteq> VBinary bytes" by simp
  have b: "\<forall>bytes. VMatrix [[ascii ''1'', ascii ''2'']] \<noteq> VBinary bytes" by simp
  from image_callbacks_ignore_non_binary [OF a, of demo_env camera_created 0]
    image_callbacks_ignore_non_binary [OF b, of demo_env camera_created 0]
  show ?thesis by simp
qed

text \<open>
  Claim C7 at the delete of a live camera and of a live trajectory. \<^verbatim>\<open>parseDeleteKeys\<close> looks
  the key up among the robots and the objects only: after the delete of its key the camera
  is still in the scene and in its dictionary, its binding is still registered and no
  frame is rendered; only the form of the key is gone. The same holds for the trajectory.
  The delete of a live robot, last, does what the claim says: out of the scene, out of the
  dictionary, binding unregistered, one render.
\<close>

theorem delete_leaves_camera_and_trajectory:
  "live camera_created 0
   \<and> handleBatch demo_env camera_created (deletes [''cam::C''])
     = Returned (camera_created\<lparr>forms := forms demo_configured\<rparr>) ()
   \<and> live trajectory_created 0
   \<and> handleBatch demo_env trajectory_created (deletes [''traj::T''])
     = Returned (trajectory_created\<lparr>forms := forms demo_configured\<rparr>) ()
   \<and> handleBatch demo_env robot_created (deletes [''rob::R''])
     = Returned (robot_created\<lparr>scene := [], robots := [],
                                redisUpdateCallbacks := [(ascii ''a'', [])],
                                forms := forms demo_configured, renders := 2\<rparr>) ()"
  by (intro conjI live_camera_created live_trajectory_created handleBatch_delete_camera
      handleBatch_delete_trajectory handleBatch_delete_robot)

text \<open>
  Claim C1 at an object \<open>obj::K\<close> created from a model whose position key is \<open>a\<close> and then
  replaced by a model whose position key is \<open>b\<close>. \<^verbatim>\<open>addComponentToScene\<close> takes the old
  object out of the scene and of the dictionary and never calls
  \<^verbatim>\<open>unregisterRedisUpdateCallback\<close>: the binding of \<open>a\<close> to the old object is still
  registered, and an update of \<open>a\<close> calls it (the old object, component 0, is updated) and
  renders a frame.
\<close>

theorem replaced_object_keeps_old_binding:
  "\<not> live object_replaced 0
   \<and> js_get (objects object_replaced) (ascii ''obj::K'') = Some 1
   \<and> js_get (redisUpdateCallbacks object_replaced) (ascii ''a'')
     = Some [(ascii ''obj::K'', (0, ObjectUpdatePosition))]
   \<and> handleBatch demo_env object_replaced (updates [(''a'', Text (ascii ''1 2 3''))])
     = Returned (object_replaced
                   \<lparr>store_of := [Plain 1, Plain 0],
                    forms := forms object_replaced
                             @ [(ascii ''a'', Some (VMatrix [[ascii ''1'', ascii ''2'', ascii ''3'']]))],
                    renders := 3,
                    invoked := [(ascii ''a'', ascii ''obj::K'', True)]\<rparr>) ()"
proof (intro conjI)
  show "\<not> live object_replaced 0"
    by (simp add: object_replaced_eq live_def demo_configured_def initial_def)
  show "js_get (objects object_replaced) (ascii ''obj::K'') = Some 1"
    by (simp add: object_replaced_eq js_get_def)
  show "js_get (redisUpdateCallbacks object_replaced) (ascii ''a'')
     = Some [(ascii ''obj::K'', (0, ObjectUpdatePosition))]"
    by (simp add: object_replaced_eq js_get_def)
qed (rule handleBatch_update_old_key)

text \<open>
  Claim C8 at a camera that has started to decode a depth image and has then been
  replaced. The decode is still pending and its camera, component 0, is no longer live.
  When the decode completes, the callback checks nothing: it allocates the point cloud of
  the replaced camera, stores the image and its dimensions in it and renders a frame.
\<close>

theorem decode_completes_on_replaced_camera:
  "pending camera_replaced = [DepthDecoded 0 [Fin 5, Fin 6] (1, 2, 1)]
   \<and> \<not> live camera_replaced 0
   \<and> cameraOf camera_replaced 0 = Some (Camera_create ideal_arith)
   \<and> runTask demo_env camera_replaced (DepthDecoded 0 [Fin 5, Fin 6] (1, 2, 1))
     = camera_replaced
         \<lparr>store_of :=
            [Cam 0 ((Camera_create ideal_arith)
                      \<lparr>depthImage := Some [Fin 5, Fin 6], depthDim := (1, 2, 1),
                       points_position := Some [Fin 0], points_color := Some [Fin 1]\<rparr>),
             Cam 0 (Camera_create ideal_arith)],
          renders := 3, updatingDepth := False, pending := []\<rparr>"
proof (intro conjI)
  show "pending camera_replaced = [DepthDecoded 0 [Fin 5, Fin 6] (1, 2, 1)]"
    by (simp add: camera_replaced_eq)
  show "\<not> live camera_replaced 0"
    by (simp add: camera_replaced_eq live_def demo_configured_def initial_def)
  show "cameraOf camera_replaced 0 = Some (Camera_create ideal_arith)"
    by (simp add: camera_replaced_eq cameraOf_def)
  show "runTask demo_env camera_replaced (DepthDecoded 0 [Fin 5, Fin 6] (1, 2, 1))
     = camera_replaced
         \<lparr>store_of :=
            [Cam 0 ((Camera_create ideal_arith)
                      \<lparr>depthImage := Some [Fin 5, Fin 6], depthDim := (1, 2, 1),
                       points_position := Some [Fin 0], points_color := Some [Fin 1]\<rparr>),
             Cam 0 (Camera_create ideal_arith)],
          renders := 3, updatingDepth := False, pending := []\<rparr>"
    unfolding camera_replaced_eq
    by (simp add: runTask_def depthImageDecoded_def cameraOf_def setCamera_def objectOf_def
        renderCameraViewFrame_def renderPointCloud_def Camera_create_def demo_env_def
        ideal_arith_def DOWNSCALE_FACTOR_def demo_configured_def initial_def Let_def)
qed

text \<open>
  Claim C9, as amended. Whenever \<^verbatim>\<open>handleMessage\<close> handles a decoded batch to the end, with
  no assignment through an inherited name so far, the handlers invoked for its updated keys
  are called after the arguments and the models of the batch have been parsed (each model
  created there renders a frame of its own); their boolean results are ORed, and exactly
  one more render is requested if that OR is true or if, for a delete key of the batch,
  \<^verbatim>\<open>key in robots\<close> or \<^verbatim>\<open>key in objects\<close> holds at that point (the key of a robot or an
  object held, or a name every object inherits, such as \<^verbatim>\<open>toString\<close>), none otherwise.
\<close>

theorem handleBatch_render:
  assumes "handleBatch e st keys = Returned st' ()" and "\<not> prototypeWritten st'"
  shows "\<exists>st1 log.
           parseArgs e st (toUpdate keys) = Returned st1 ()
         \<and> invoked st' = invoked (parseModels e st1 (toUpdate keys)) @ log
         \<and> renders st'
           = renders (parseModels e st1 (toUpdate keys))
             + (if (\<exists>x \<in> set log. snd (snd x))
                   \<or> (\<exists>k \<in> set (toDelete keys).
                         js_in (toPropertyKey k) (robots (parseModels e st1 (toUpdate keys)))
                         \<or> js_in (toPropertyKey k) (objects (parseModels e st1 (toUpdate keys))))
                then 1 else 0)"
proof -
  from assms(1) obtain st1 st2 rf st3 deleted where
    pa: "parseArgs e st (toUpdate keys) = Returned st1 ()" and
    pu: "parseUpdateKeys e (parseModels e st1 (toUpdate keys)) (toUpdate keys) = Returned st2 rf" and
    pd: "parseDeleteKeys e st2 (toDelete keys) = Returned st3 deleted" and
    st': "st' = (if deleted \<or> rf then st3\<lparr>renders := renders st3 + 1\<rparr> else st3)
                  \<lparr>handlingMessage := False\<rparr>"
    unfolding handleBatch_def by (auto elim!: andThen_Returned)
  let ?m = "parseModels e st1 (toUpdate keys)"
  from updateKeysLoop_log [OF pu [unfolded parseUpdateKeys_def]] obtain log where
    log: "invoked st2 = invoked ?m @ log" "rf = (\<exists>x \<in> set log. snd (snd x))"
      "renders st2 = renders ?m" "robots st2 = robots ?m" "objects st2 = objects ?m"
    by auto
  have flag: "deleted = (\<exists>k \<in> set (toDelete keys).
                         js_in (toPropertyKey k) (robots ?m) \<or> js_in (toPropertyKey k) (objects ?m))"
    using deleteKeysLoop_flag [OF pd [unfolded parseDeleteKeys_def]] log(4,5) by simp
  have fr: "renders st3 = renders ?m" "invoked st3 = invoked ?m @ log"
    using deleteKeysLoop_frame [OF pd [unfolded parseDeleteKeys_def]] log(1,3) by simp_all
  show ?thesis
  proof (intro exI [of _ st1] exI [of _ log] conjI)
    show "parseArgs e st (toUpdate keys) = Returned st1 ()" by (rule pa)
    show "invoked st' = invoked ?m @ log" unfolding st' using fr(2) by simp
    show "renders st'
           = renders ?m
             + (if (\<exists>x \<in> set log. snd (snd x))
                   \<or> (\<exists>k \<in> set (toDelete keys).
                         js_in (toPropertyKey k) (robots ?m)
                         \<or> js_in (toPropertyKey k) (objects ?m))
                then 1 else 0)"
      unfolding st' using fr(1) flag log(2) by auto
  qed
qed

theorem handleBatch_render_witness:
  "handleBatch demo_env object_replaced (updates [(''a'', Text (ascii ''1 2 3''))])
   = Returned (object_replaced
                 \<lparr>store_of := [Plain 1, Plain 0],
                  forms := forms object_replaced
                           @ [(ascii ''a'', Some (VMatrix [[ascii ''1'', ascii ''2'', ascii ''3'']]))],
                  renders := 3,
                  invoked := [(ascii ''a'', ascii ''obj::K'', True)]\<rparr>) ()
   \<and> invoked object_replaced = []
   \<and> renders object_replaced + 1 = 3
   \<and> handleBatch demo_env robot_created (deletes [''toString''])
     = Returned (robot_created\<lparr>renders := 2\<rparr>) ()
   \<and> js_in (ascii ''toString'') (robots robot_created)
   \<and> renders robot_created + 1 = 2"
proof -
  let ?U = "updates [(''a'', Text (ascii ''1 2 3''))]"
  let ?S = "object_replaced
              \<lparr>store_of := [Plain 1, Plain 0],
               forms := forms object_replaced
                        @ [(ascii ''a'', Some (VMatrix [[ascii ''1'', ascii ''2'', ascii ''3'']]))],
               renders := 3,
               invoked := [(ascii ''a'', ascii ''obj::K'', True)]\<rparr>"
  have clean: "\<not> prototypeWritten ?S"
    by (simp add: object_replaced_eq demo_configured_def initial_def)
  from handleBatch_render [OF handleBatch_update_old_key clean] obtain st1 log where
    pa: "parseArgs demo_env object_replaced (toUpdate ?U) = Returned st1 ()" and
    inv: "invoked ?S = invoked (parseModels demo_env st1 (toUpdate ?U)) @ log" and
    ren: "renders ?S
          = renders (parseModels demo_env st1 (toUpdate ?U))
            + (if (\<exists>x \<in> set log. snd (snd x))
                  \<or> (\<exists>k \<in> set (toDelete ?U).
                        js_in (toPropertyKey k) (robots (parseModels demo_env st1 (toUpdate ?U)))
                        \<or> js_in (toPropertyKey k) (objects (parseModels demo_env st1 (toUpdate ?U))))
               then 1 else 0)"
    by blast
  from pa have st1: "st1 = object_replaced" by (simp add: parseArgs_update_old_key)
  have empty: "invoked object_replaced = []"
    by (simp add: object_replaced_eq demo_configured_def initial_def)
  from inv have log: "log = [(ascii ''a'', ascii ''obj::K'', True)]"
    by (simp add: st1 parseModels_update_old_key empty)
  from ren have first: "renders object_replaced + 1 = 3"
    by (simp add: st1 parseModels_update_old_key log)
  let ?D = "deletes [''toString'']"
  have clean': "\<not> prototypeWritten (robot_created\<lparr>renders := 2\<rparr>)"
    by (simp add: robot_created_eq demo_configured_def initial_def)
  from handleBatch_render [OF handleBatch_delete_inherited clean'] obtain st2 log2 where
    pa2: "parseArgs demo_env robot_created (toUpdate ?D) = Returned st2 ()" and
    inv2: "invoked (robot_created\<lparr>renders := 2\<rparr>)
           = invoked (parseModels demo_env st2 (toUpdate ?D)) @ log2" and
    ren2: "renders (robot_created\<lparr>renders := 2\<rparr>)
          = renders (parseModels demo_env st2 (toUpdate ?D))
            + (if (\<exists>x \<in> set log2. snd (snd x))
                  \<or> (\<exists>k \<in> set (toDelete ?D).
                        js_in (toPropertyKey k) (robots (parseModels demo_env st2 (toUpdate ?D)))
                        \<or> js_in (toPropertyKey k) (objects (parseModels demo_env st2 (toUpdate ?D))))
               then 1 else 0)"
    by blast
  from pa2 have st2: "st2 = robot_created" by (simp add: deletes_def)
  have inh: "js_in (ascii ''toString'') (robots robot_created)"
    by (simp add: js_in_def objectPrototypeNames_def)
  from ren2 inh have second: "renders robot_created + 1 = 2"
    by (simp add: st2 deletes_def toPropertyKey_def)
  from empty first inh second show ?thesis
    by (simp add: handleBatch_update_old_key handleBatch_delete_inherited)
qed

text \<open>
  Claim C9 as stated issues the render of a batch only when the OR of the handlers'
  results is true. A batch that deletes a live robot invokes no handler at all, and a frame
  is rendered: \<^verbatim>\<open>parseDeleteKeys\<close> sets the flag itself.
\<close>

theorem delete_renders_without_callback:
  "invoked robot_created = []
   \<and> renders robot_created = 1
   \<and> handleBatch demo_env robot_created (deletes [''rob::R''])
     = Returned (robot_created\<lparr>scene := [], robots := [],
                                redisUpdateCallbacks := [(ascii ''a'', [])],
                                forms := forms demo_configured, renders := 2\<rparr>) ()"
proof (intro conjI)
  show "invoked robot_created = []"
    by (simp add: robot_created_eq demo_configured_def initial_def)
  show "renders robot_created = 1"
    by (simp add: robot_created_eq)
qed (rule handleBatch_delete_robot)
end
